theory Spec2Isabelle
  imports Main
begin

section \<open>JavaScript values of \<open>signal.ts\<close>\<close>

text \<open>
  The module never mutates the structures it is given (properties objects, children
  lists), the fields that \<open>use\<close> writes on a promise apart, but it compares them by
  reference (\<open>===\<close>, \<open>!==\<close>) and allocates new ones. A value is therefore a tree in which every object carries its identity, an address:
  two objects are the same reference exactly when their addresses are equal. An object
  graph with sharing is the tree where the shared object occurs several times with one
  address. A cyclic graph is no tree: the source recurses for ever on one
  (\<open>findAllSignals\<close> and \<open>fillAllSignalValues\<close> have no cycle check), and it is
  outside this model.

  \<^item> \<open>Num\<close> and \<open>NaN\<close>: a number; \<open>NaN\<close> is apart because \<open>NaN === NaN\<close> is false.
  \<^item> \<open>Fun\<close>: a function object (\<open>typeof x === 'function'\<close>), by identity.
  \<^item> \<open>Signal (Sig a store atom)\<close>: the object \<open>{ [SIGNAL]: { s: subscribe, r: read } }\<close>
    that \<open>getSignal\<close> builds at address \<open>a\<close>; the two closures capture \<open>store\<close> and
    \<open>atom\<close>. \<open>SIGNAL\<close> is a symbol private to the module, so these are the objects that
    carry it. \<open>sig\<close> is the source's type \<open>Signal\<close>.
  \<^item> \<open>Arr a xs\<close>: an array (\<open>Array.isArray\<close>) with elements \<open>xs\<close>.
  \<^item> \<open>Obj a es syms hid proto\<close>: any other object: \<open>es\<close> its own enumerable
    string-keyed properties in enumeration order (what \<open>Object.entries\<close> and
    \<open>Object.values\<close> list), \<open>syms\<close> its own symbol-keyed properties, \<open>hid\<close> its own
    non-enumerable string-keyed properties, \<open>proto\<close> its prototype. An instance of
    \<open>Promise\<close> is such an object, with the prototype \<open>PromisePrototype\<close>: the scanner
    and the substitution take it as any other object. Its own enumerable properties are
    the fields \<open>status\<close>, \<open>value\<close>, \<open>reason\<close> that \<open>use\<close> writes on it. These
    change, so the world keeps them for \<open>use\<close>, by the address of the promise; a tree
    shows the fields the promise has when the tree is taken (\<open>promise_val\<close> below).
    \<open>use\<close> writes on a promise only in a call that throws, which ends the scan or the
    substitution under way, so a tree stays right for the whole of one call.
\<close>

type_synonym addr = nat
type_synonym store = nat
type_synonym atom = nat

datatype proto = ObjectPrototype | NullPrototype | PromisePrototype | ClassPrototype nat

datatype sig = Sig (saddr: addr) (sstore: store) (satom: atom)

datatype val =
    Undefined
  | Null
  | Bool bool
  | Num int
  | NaN
  | Str string
  | Fun nat
  | Signal sig
  | Arr addr "val list"
  | Obj addr "(string \<times> val) list" "(nat \<times> val) list" "(string \<times> val) list" proto

text \<open>\<open>a === b\<close>: primitives by value (\<open>NaN\<close> equals nothing), objects by reference.\<close>

fun strict_eq :: "val \<Rightarrow> val \<Rightarrow> bool" where
  "strict_eq Undefined y = (y = Undefined)"
| "strict_eq Null y = (y = Null)"
| "strict_eq (Bool a) y = (y = Bool a)"
| "strict_eq (Num a) y = (y = Num a)"
| "strict_eq NaN y = False"
| "strict_eq (Str a) y = (y = Str a)"
| "strict_eq (Fun a) y = (y = Fun a)"
| "strict_eq (Signal a) y = (case y of Signal b \<Rightarrow> saddr a = saddr b | _ \<Rightarrow> False)"
| "strict_eq (Arr a _) y = (case y of Arr b _ \<Rightarrow> a = b | _ \<Rightarrow> False)"
| "strict_eq (Obj a _ _ _ _) y = (case y of Obj b _ _ _ _ \<Rightarrow> a = b | _ \<Rightarrow> False)"

text \<open>\<open>const isSignal = (x) => !!x?.[SIGNAL]\<close>\<close>

fun isSignal :: "val \<Rightarrow> bool" where
  "isSignal (Signal _) = True"
| "isSignal _ = False"

section \<open>The structural scanner\<close>

text \<open>
  \<^verbatim>\<open>
  const findAllSignals = (x: unknown): Signal[] => {
    if (isSignal(x)) { return [x]; }
    if (Array.isArray(x)) { return x.flatMap(findAllSignals); }
    if (typeof x === 'object' && x !== null) {
      return Object.values(x).flatMap(findAllSignals);
    }
    return [];
  };
  \<close>
\<close>

fun findAllSignals :: "val \<Rightarrow> sig list" where
  "findAllSignals (Signal x) = [x]"
| "findAllSignals (Arr a xs) = concat (map findAllSignals xs)"
| "findAllSignals (Obj a es syms hid p) = concat (map (\<lambda>kv. findAllSignals (snd kv)) es)"
| "findAllSignals _ = []"

section \<open>The world: stores, promises, allocation\<close>

text \<open>
  What the module reads and writes outside its arguments.
  \<^item> \<open>nextAddr\<close>: the next free address; an object expression or \<open>map\<close> or
    \<open>Object.fromEntries\<close> allocates there.
  \<^item> \<open>signalCache\<close>: the module's \<open>WeakMap<Store, WeakMap<DisplayableAtom, Signal>>\<close>.
    A weak map drops an entry only after its key is unreachable, when nobody can ask for
    it again, so entries are never removed here.
  \<^item> \<open>cells w store atom\<close>: what \<open>store.get(atom)\<close> returns.
  \<^item> \<open>promises\<close>: for each promise, by its address, the fields \<open>status\<close>, \<open>value\<close>,
    \<open>reason\<close> that \<open>use\<close> reads and writes (\<open>pstatus\<close> is \<open>None\<close> when \<open>status\<close> is
    none of \<open>'pending'\<close>, \<open>'fulfilled'\<close>, \<open>'rejected'\<close>), whether \<open>use\<close> has attached
    its callbacks with \<open>then\<close>, and the promise's own state (\<open>None\<close> while pending,
    \<open>Some (Inr v)\<close> fulfilled with \<open>v\<close>, \<open>Some (Inl e)\<close> rejected with \<open>e\<close>).
  \<^item> \<open>reactUse\<close>: \<open>ReactExports.use\<close>. \<open>None\<close>: React exports no \<open>use\<close>;
    \<open>Some x\<close>: it exports one, and \<open>x\<close> is the value React's \<open>use\<close> throws to suspend
    a render.
  \<^item> \<open>listeners\<close>: the subscriptions \<open>store.sub(atom, callback)\<close> has registered and
    that are not yet unsubscribed, each with the id its unsubscribe function removes.
\<close>

datatype pstatus = StatusPending | StatusFulfilled | StatusRejected

record promise =
  pstatus :: "pstatus option"
  pvalue :: val
  preason :: val
  attached :: bool
  settled :: "(val + val) option"

datatype listener = Listener (lid: nat) (lstore: store) (latom: atom) (lcallback: nat)

record world =
  nextAddr :: addr
  signalCache :: "store \<Rightarrow> (atom \<Rightarrow> sig option) option"
  cells :: "store \<Rightarrow> atom \<Rightarrow> val"
  promises :: "addr \<Rightarrow> promise"
  listeners :: "listener list"
  nextSub :: nat
  defaultStore :: store
  reactUse :: "val option"

text \<open>A call returns a value or throws one (\<open>throw promise\<close>, \<open>throw promise.reason\<close>).\<close>

datatype 'a res = Return 'a | Throw val

section \<open>Reading a signal\<close>

text \<open>
  The address of an object (\<open>0\<close> for a value that is no object: it is asked of objects
  only, \<open>use\<close> being called on \<open>Promise\<close> instances).
\<close>

fun address :: "val \<Rightarrow> addr" where
  "address (Obj a es syms hid p) = a"
| "address (Arr a xs) = a"
| "address (Signal x) = saddr x"
| "address v = 0"

text \<open>
  \<^verbatim>\<open>
  const use =
    ReactExports.use ||
    (<T>(promise: Promise<T> & { status?: ...; value?: T; reason?: unknown }): T => {
      if (promise.status === 'pending') { throw promise; }
      else if (promise.status === 'fulfilled') { return promise.value as T; }
      else if (promise.status === 'rejected') { throw promise.reason; }
      else {
        promise.status = 'pending';
        promise.then(
          (v) => { promise.status = 'fulfilled'; promise.value = v; },
          (e) => { promise.status = 'rejected'; promise.reason = e; });
        throw promise;
      }
    });
  \<close>
  \<open>use_fallback\<close> is the function written in the module. It is called on \<open>Promise\<close>
  instances only (\<open>readSignal\<close> is its one caller).
\<close>

definition use_fallback :: "val \<Rightarrow> world \<Rightarrow> val res \<times> world" where
  "use_fallback promise w =
     (let p = address promise; pr = promises w p in
      case pstatus pr of
        Some StatusPending \<Rightarrow> (Throw promise, w)
      | Some StatusFulfilled \<Rightarrow> (Return (pvalue pr), w)
      | Some StatusRejected \<Rightarrow> (Throw (preason pr), w)
      | None \<Rightarrow>
          (Throw promise,
           w\<lparr>promises := (promises w)
                (p := pr\<lparr>pstatus := Some StatusPending, attached := True\<rparr>)\<rparr>))"

text \<open>
  Modelled from the spec: React's own \<open>use\<close>, which is not in the repository. The spec
  (section 6) gives its contract: a suspend-capable await for a promise-like value
  exposing the fields \<open>status\<close>, \<open>value\<close>, \<open>reason\<close>, with the status machine unset, then
  pending, then fulfilled or rejected; the render suspends until the value resolves, then
  resumes with the resolved value, or fails with the rejection reason. It suspends by
  throwing a value of its own, \<open>x\<close>, not the promise.
\<close>

definition use_react :: "val \<Rightarrow> val \<Rightarrow> world \<Rightarrow> val res \<times> world" where
  "use_react x promise w =
     (let p = address promise; pr = promises w p in
      case pstatus pr of
        Some StatusPending \<Rightarrow> (Throw x, w)
      | Some StatusFulfilled \<Rightarrow> (Return (pvalue pr), w)
      | Some StatusRejected \<Rightarrow> (Throw (preason pr), w)
      | None \<Rightarrow>
          (Throw x,
           w\<lparr>promises := (promises w)
                (p := pr\<lparr>pstatus := Some StatusPending, attached := True\<rparr>)\<rparr>))"

text \<open>\<open>ReactExports.use || fallback\<close>\<close>

definition use :: "val \<Rightarrow> world \<Rightarrow> val res \<times> world" where
  "use promise w =
     (case reactUse w of
        Some x \<Rightarrow> use_react x promise w
      | None \<Rightarrow> use_fallback promise w)"

text \<open>
  The two callbacks that \<open>use\<close> passes to \<open>then\<close>: the language runs one of them, once,
  after the promise has settled (at once, in the next job, when it had settled before).
  React's \<open>use\<close> keeps the same fields up to date by callbacks of its own.
\<close>

definition run_reactions :: "addr \<Rightarrow> world \<Rightarrow> world" where
  "run_reactions p w =
     (let promise = promises w p in
      if attached promise then
        (case settled promise of
           None \<Rightarrow> w
         | Some (Inr v) \<Rightarrow>
             w\<lparr>promises := (promises w)
                  (p := promise\<lparr>pstatus := Some StatusFulfilled, pvalue := v, attached := False\<rparr>)\<rparr>
         | Some (Inl e) \<Rightarrow>
             w\<lparr>promises := (promises w)
                  (p := promise\<lparr>pstatus := Some StatusRejected, preason := e, attached := False\<rparr>)\<rparr>)
      else w)"

text \<open>The promise settles (a settled promise stays as it is), then its reactions run.\<close>

definition settle :: "addr \<Rightarrow> val + val \<Rightarrow> world \<Rightarrow> world" where
  "settle p outcome w =
     (let promise = promises w p in
      run_reactions p
        (case settled promise of
           None \<Rightarrow> w\<lparr>promises := (promises w)(p := promise\<lparr>settled := Some outcome\<rparr>)\<rparr>
         | Some _ \<Rightarrow> w))"

text \<open>
  \<^verbatim>\<open>
  const readSignal = (signal: Signal) => {
    const { r: read } = signal[SIGNAL];      // read = () => store.get(atom)
    const value = read();
    if (value instanceof Promise) { return use(value); }
    return value;
  };
  \<close>
\<close>

fun instanceofPromise :: "val \<Rightarrow> bool" where
  "instanceofPromise (Obj a es syms hid p) = (p = PromisePrototype)"
| "instanceofPromise _ = False"

definition read :: "sig \<Rightarrow> world \<Rightarrow> val" where
  "read signal w = cells w (sstore signal) (satom signal)"

definition readSignal :: "sig \<Rightarrow> world \<Rightarrow> val res \<times> world" where
  "readSignal signal w =
     (let v = read signal w in
      if instanceofPromise v then use v w else (Return v, w))"

section \<open>Value substitution\<close>

text \<open>
  \<^verbatim>\<open>
  const fillAllSignalValues = <T>(x: T): T => {
    if (isSignal(x)) { return readSignal(x) as T; }
    if (Array.isArray(x)) {
      let changed = false;
      const x2 = x.map((item) => {
        const item2 = fillAllSignalValues(item);
        if (item !== item2) { changed = true; }
        return item2;
      });
      return changed ? (x2 as typeof x) : x;
    }
    if (typeof x === 'object' && x !== null) {
      let changed = false;
      const x2 = Object.fromEntries(
        Object.entries(x).map(([key, value]) => {
          const value2 = fillAllSignalValues(value);
          if (value !== value2) { changed = true; }
          return [key, value2];
        }));
      return changed ? (x2 as typeof x) : x;
    }
    return x;
  };
  \<close>
  \<open>fill_items\<close> is the \<open>map\<close> over the elements with its callback, left to right, and
  \<open>fill_entries\<close> the one over \<open>Object.entries(x)\<close>; each returns the mapped list and
  the flag \<open>changed\<close>. A throw inside leaves the loop at once. \<open>x2\<close> is a new object
  at a fresh address (taken here when the loop is done; only its freshness matters):
  \<open>Object.fromEntries\<close> builds a plain object (prototype \<open>Object.prototype\<close>) whose
  own properties are the given entries, all enumerable and string-keyed.
\<close>

definition alloc :: "world \<Rightarrow> addr \<times> world" where
  "alloc w = (nextAddr w, w\<lparr>nextAddr := Suc (nextAddr w)\<rparr>)"

fun fillAllSignalValues :: "val \<Rightarrow> world \<Rightarrow> val res \<times> world"
  and fill_items :: "val list \<Rightarrow> world \<Rightarrow> (val list \<times> bool) res \<times> world"
  and fill_entries :: "(string \<times> val) list \<Rightarrow> world \<Rightarrow> ((string \<times> val) list \<times> bool) res \<times> world"
where
  "fillAllSignalValues (Signal x) w = readSignal x w"
| "fillAllSignalValues (Arr a xs) w =
     (case fill_items xs w of
        (Throw e, w1) \<Rightarrow> (Throw e, w1)
      | (Return (x2, changed), w1) \<Rightarrow>
          (let (a2, w2) = alloc w1 in
           (Return (if changed then Arr a2 x2 else Arr a xs), w2)))"
| "fillAllSignalValues (Obj a es syms hid p) w =
     (case fill_entries es w of
        (Throw e, w1) \<Rightarrow> (Throw e, w1)
      | (Return (es2, changed), w1) \<Rightarrow>
          (let (a2, w2) = alloc w1 in
           (Return (if changed then Obj a2 es2 [] [] ObjectPrototype else Obj a es syms hid p), w2)))"
| "fillAllSignalValues Undefined w = (Return Undefined, w)"
| "fillAllSignalValues Null w = (Return Null, w)"
| "fillAllSignalValues (Bool b) w = (Return (Bool b), w)"
| "fillAllSignalValues (Num n) w = (Return (Num n), w)"
| "fillAllSignalValues NaN w = (Return NaN, w)"
| "fillAllSignalValues (Str s) w = (Return (Str s), w)"
| "fillAllSignalValues (Fun f) w = (Return (Fun f), w)"
| "fill_items [] w = (Return ([], False), w)"
| "fill_items (item # rest) w =
     (case fillAllSignalValues item w of
        (Throw e, w1) \<Rightarrow> (Throw e, w1)
      | (Return item2, w1) \<Rightarrow>
          (case fill_items rest w1 of
             (Throw e, w2) \<Rightarrow> (Throw e, w2)
           | (Return (rest2, changed), w2) \<Rightarrow>
               (Return (item2 # rest2, \<not> strict_eq item item2 \<or> changed), w2)))"
| "fill_entries [] w = (Return ([], False), w)"
| "fill_entries (kv # rest) w =
     (case fillAllSignalValues (snd kv) w of
        (Throw e, w1) \<Rightarrow> (Throw e, w1)
      | (Return value2, w1) \<Rightarrow>
          (case fill_entries rest w1 of
             (Throw e, w2) \<Rightarrow> (Throw e, w2)
           | (Return (rest2, changed), w2) \<Rightarrow>
               (Return ((fst kv, value2) # rest2, \<not> strict_eq (snd kv) value2 \<or> changed), w2)))"

section \<open>The handle registry\<close>

text \<open>
  \<^verbatim>\<open>
  const getSignal = (store: Store, atom: DisplayableAtom): Signal => {
    let atomSignalCache = signalCache.get(store);
    if (!atomSignalCache) {
      atomSignalCache = new WeakMap();
      signalCache.set(store, atomSignalCache);
    }
    let signal = atomSignalCache.get(atom);
    if (!signal) {
      const subscribe: Subscribe = (callback) => store.sub(atom, callback);
      const read: Read = () => store.get(atom);
      signal = { [SIGNAL]: { s: subscribe, r: read } };
      atomSignalCache.set(atom, signal);
    }
    return signal;
  };
  \<close>
  The inner map is an object held by the outer one, so \<open>atomSignalCache.set\<close> is an
  update of the entry of \<open>store\<close>. A cached signal is an object, never falsy.
\<close>

definition getSignal :: "store \<Rightarrow> atom \<Rightarrow> world \<Rightarrow> sig \<times> world" where
  "getSignal store atom w =
     (let (atomSignalCache, w1) =
            (case signalCache w store of
               None \<Rightarrow> (Map.empty, w\<lparr>signalCache := (signalCache w)(store := Some Map.empty)\<rparr>)
             | Some m \<Rightarrow> (m, w))
      in case atomSignalCache atom of
           None \<Rightarrow>
             (let (a, w2) = alloc w1;
                  signal = Sig a store atom
              in (signal,
                  w2\<lparr>signalCache := (signalCache w2)(store := Some (atomSignalCache(atom := Some signal)))\<rparr>))
         | Some signal \<Rightarrow> (signal, w1))"

text \<open>
  \<^verbatim>\<open>
  export const signal = (atom, store = getDefaultStore()): string => {
    return getSignal(store, atom) as Signal & string;
  };
  \<close>
  \<open>getDefaultStore()\<close> returns the one default store of the process.
\<close>

definition getDefaultStore :: "world \<Rightarrow> store" where
  "getDefaultStore w = defaultStore w"

definition signal :: "atom \<Rightarrow> store option \<Rightarrow> world \<Rightarrow> sig \<times> world" where
  "signal atom store_arg w =
     getSignal (case store_arg of None \<Rightarrow> getDefaultStore w | Some store \<Rightarrow> store) atom w"

text \<open>Any further calls of \<open>signal\<close>, their results dropped.\<close>

fun signal_calls :: "(atom \<times> store option) list \<Rightarrow> world \<Rightarrow> world" where
  "signal_calls [] w = w"
| "signal_calls (c # cs) w = signal_calls cs (snd (signal (fst c) (snd c) w))"

section \<open>The list-stability helper\<close>

text \<open>
  An array passed around by reference is a pair of its address and its elements.
  \<^verbatim>\<open>
  const useMemoList = <T>(list: T[], compareFn = (a: T, b: T) => a === b) => {
    const [state, setState] = useState(list);
    const listChanged =
      list.length !== state.length ||
      list.some((arg, index) => !compareFn(arg, state[index] as T));
    if (listChanged) { setState(list); }
    return listChanged ? list : state;
  };
  \<close>
  The slot of \<open>useState\<close> is \<open>None\<close> before the first render of the component instance,
  when \<open>useState(list)\<close> starts it with \<open>list\<close>, and holds the committed state after.
  The function returns the list, the slot after \<open>setState\<close>, and whether \<open>setState\<close> was
  called (which makes the host run the component again).
\<close>

type_synonym 'a arr = "addr \<times> 'a list"

definition listChanged :: "('a \<Rightarrow> 'a \<Rightarrow> bool) \<Rightarrow> 'a list \<Rightarrow> 'a list \<Rightarrow> bool" where
  "listChanged compareFn list state =
     (length list \<noteq> length state \<or>
      list_ex (\<lambda>index. \<not> compareFn (list ! index) (state ! index)) [0..<length list])"

definition useMemoList ::
  "('a \<Rightarrow> 'a \<Rightarrow> bool) \<Rightarrow> 'a arr \<Rightarrow> 'a arr option \<Rightarrow> 'a arr \<times> 'a arr option \<times> bool" where
  "useMemoList compareFn list slot =
     (let state = (case slot of None \<Rightarrow> list | Some s \<Rightarrow> s) in
      if listChanged compareFn (snd list) (snd state)
      then (list, Some list, True)
      else (state, Some state, False))"

section \<open>The render boundary\<close>

text \<open>
  The store's \<open>sub\<close> is outside the module; the model takes its contract:
  \<open>store.sub(atom, callback)\<close> registers \<open>callback\<close> for \<open>atom\<close> and returns the function
  that removes this registration. The function is named by the id of the registration.
  \<^verbatim>\<open>
  const subscribeSignal = (signal: Signal, callback: () => void) => {
    const { s: subscribe } = signal[SIGNAL];   // (callback) => store.sub(atom, callback)
    return subscribe(callback);
  };
  \<close>
\<close>

definition store_sub :: "store \<Rightarrow> atom \<Rightarrow> nat \<Rightarrow> world \<Rightarrow> nat \<times> world" where
  "store_sub store atom callback w =
     (nextSub w,
      w\<lparr>listeners := listeners w @ [Listener (nextSub w) store atom callback],
        nextSub := Suc (nextSub w)\<rparr>)"

definition unsub :: "nat \<Rightarrow> world \<Rightarrow> world" where
  "unsub i w = w\<lparr>listeners := filter (\<lambda>l. lid l \<noteq> i) (listeners w)\<rparr>"

definition subscribeSignal :: "sig \<Rightarrow> nat \<Rightarrow> world \<Rightarrow> nat \<times> world" where
  "subscribeSignal sg callback w = store_sub (sstore sg) (satom sg) callback w"

text \<open>
  The hooks of one instance of \<open>Rerenderer\<close>, as the host keeps them between renders:
  the counter of \<open>useReducer((c) => c + 1, 0)\<close>, the state of the \<open>useState\<close> inside
  \<open>useMemoList\<close>, and for \<open>useEffect\<close> the dependency \<open>memoedSignals\<close> of the effect that
  ran last (compared by reference) with the array \<open>unsubs\<close> its cleanup closes over.
\<close>

record hooks =
  counter :: nat
  memoState :: "sig arr option"
  effectDeps :: "addr option"
  unsubs :: "nat list"

definition initial_hooks :: hooks where
  "initial_hooks = \<lparr>counter = 0, memoState = None, effectDeps = None, unsubs = []\<rparr>"

text \<open>
  \<^verbatim>\<open>
  const Rerenderer = ({ signals, render }): ReactNode => {
    const [, rerender] = useReducer((c) => c + 1, 0);
    const memoedSignals = useMemoList(signals);
    useEffect(() => {
      const unsubs = memoedSignals.map((sig) => subscribeSignal(sig, rerender));
      return () => unsubs.forEach((unsub) => unsub());
    }, [memoedSignals]);
    return render();
  };
  \<close>
  The body of the component: it returns what \<open>render()\<close> returns or throws, the hooks
  after \<open>setState\<close>, the dependency of the effect it declares, and whether it called
  \<open>setState\<close>. The default \<open>compareFn\<close> is \<open>===\<close> on two signals.
\<close>

definition compareFn_default :: "sig \<Rightarrow> sig \<Rightarrow> bool" where
  "compareFn_default a b = strict_eq (Signal a) (Signal b)"

definition Rerenderer ::
  "sig arr \<Rightarrow> (world \<Rightarrow> 'e res \<times> world) \<Rightarrow> hooks \<Rightarrow> world \<Rightarrow>
     'e res \<times> hooks \<times> sig arr \<times> bool \<times> world" where
  "Rerenderer signals render h w =
     (let (memoedSignals, slot, scheduled) = useMemoList compareFn_default signals (memoState h);
          (out, w1) = render w
      in (out, h\<lparr>memoState := slot\<rparr>, memoedSignals, scheduled, w1))"

text \<open>The effect and its cleanup.\<close>

fun subscribe_all :: "sig list \<Rightarrow> nat \<Rightarrow> world \<Rightarrow> nat list \<times> world" where
  "subscribe_all [] rerender w = ([], w)"
| "subscribe_all (s # rest) rerender w =
     (let (u, w1) = subscribeSignal s rerender w;
          (us, w2) = subscribe_all rest rerender w1
      in (u # us, w2))"

fun unsub_all :: "nat list \<Rightarrow> world \<Rightarrow> world" where
  "unsub_all [] w = w"
| "unsub_all (u # us) w = unsub_all us (unsub u w)"

text \<open>
  The contract of the host's hooks (they are React's, outside the module): state persists
  between the renders of an instance; a \<open>setState\<close> during the render makes the host run
  the body again with the new state before it commits, and give up after too many
  rounds; a body that throws commits nothing; after the commit, an effect whose
  dependency is not the same reference as the last time runs, the cleanup of the
  previous effect first; a dispatch of the reducer makes the host render the instance
  again with its current props.

  \<open>commit_effect\<close> is the effect phase, \<open>render_pass\<close> one pass of the host over the
  instance whose dispatch function is \<open>rerender\<close>; it returns the outcome, the hooks, the
  world and how many times the body ran.
\<close>

definition commit_effect :: "nat \<Rightarrow> sig arr \<Rightarrow> hooks \<Rightarrow> world \<Rightarrow> hooks \<times> world" where
  "commit_effect rerender memoedSignals h w =
     (if effectDeps h = Some (fst memoedSignals) then (h, w)
      else
        (let w1 = unsub_all (unsubs h) w;
             (us, w2) = subscribe_all (snd memoedSignals) rerender w1
         in (h\<lparr>effectDeps := Some (fst memoedSignals), unsubs := us\<rparr>, w2)))"

datatype 'e pass = Committed 'e | Thrown val | TooManyRerenders

fun render_pass ::
  "nat \<Rightarrow> nat \<Rightarrow> sig arr \<Rightarrow> (world \<Rightarrow> 'e res \<times> world) \<Rightarrow> hooks \<Rightarrow> world \<Rightarrow>
     'e pass \<times> hooks \<times> world \<times> nat" where
  "render_pass 0 rerender signals render h w = (TooManyRerenders, h, w, 0)"
| "render_pass (Suc fuel) rerender signals render h w =
     (case Rerenderer signals render h w of
        (Throw e, h1, memoedSignals, scheduled, w1) \<Rightarrow> (Thrown e, h, w1, 1)
      | (Return out, h1, memoedSignals, scheduled, w1) \<Rightarrow>
          if scheduled then
            (case render_pass fuel rerender signals render h1 w1 of
               (Committed out2, h2, w2, n) \<Rightarrow> (Committed out2, h2, w2, Suc n)
             | (Thrown e, h2, w2, n) \<Rightarrow> (Thrown e, h, w2, Suc n)
             | (TooManyRerenders, h2, w2, n) \<Rightarrow> (TooManyRerenders, h, w2, Suc n))
          else
            (case commit_effect rerender memoedSignals h1 w1 of
               (h2, w2) \<Rightarrow> (Committed out, h2, w2, 1)))"

text \<open>
  The cell \<open>atom\<close> of \<open>store\<close> fires: the store calls every callback registered for it.
  Each call of the instance's \<open>rerender\<close> is a dispatch that adds one to the counter; the
  host then renders the instance, once for the dispatches of one firing, with the props
  it has. \<open>on_fire\<close> returns the hooks, the world and how many times the body ran.
\<close>

definition fire :: "store \<Rightarrow> atom \<Rightarrow> world \<Rightarrow> nat list" where
  "fire store atom w =
     map lcallback (filter (\<lambda>l. lstore l = store \<and> latom l = atom) (listeners w))"

definition on_fire ::
  "nat \<Rightarrow> nat \<Rightarrow> sig \<Rightarrow> sig arr \<Rightarrow> (world \<Rightarrow> 'e res \<times> world) \<Rightarrow> hooks \<Rightarrow> world \<Rightarrow>
     hooks \<times> world \<times> nat" where
  "on_fire fuel rerender fired signals render h w =
     (let dispatches = count_list (fire (sstore fired) (satom fired) w) rerender in
      if dispatches = 0 then (h, w, 0)
      else
        (case render_pass fuel rerender signals render (h\<lparr>counter := counter h + dispatches\<rparr>) w of
           (outcome, h1, w1, n) \<Rightarrow> (h1, w1, n)))"

section \<open>The element factory\<close>

text \<open>
  \<open>createElementOrig(type, props, ...children)\<close> is the host's; its result is kept as the
  three arguments it was given. \<open>createElement\<close> returns that, or the element of a
  \<open>Rerenderer\<close> with its two props: the array \<open>signals\<close> and the closure \<open>render\<close>.
  \<^verbatim>\<open>
  export const createElement = ((type: any, props?: any, ...children: any[]) => {
    const signalsInChildren = children.flatMap((child) =>
      isSignal(child) ? [child] : []);
    const signalsInProps = findAllSignals(props);
    if (!signalsInChildren.length && !signalsInProps.length) {
      return createElementOrig(type, props, ...children);
    }
    const getChildren = () =>
      signalsInChildren.length
        ? children.map((child) => (isSignal(child) ? readSignal(child) : child))
        : children;
    const getProps = () =>
      signalsInProps.length ? fillAllSignalValues(props) : props;
    return createElementOrig(Rerenderer as any, {
      signals: [...signalsInChildren, ...signalsInProps],
      render: () => createElementOrig(type, getProps(), ...getChildren()),
    });
  })
  \<close>
\<close>

datatype element = Element nat val "val list"

datatype created =
    Direct element
  | Boundary "sig arr" "world \<Rightarrow> element res \<times> world"

definition createElementOrig :: "nat \<Rightarrow> val \<Rightarrow> val list \<Rightarrow> element" where
  "createElementOrig type props children = Element type props children"

definition signalsInChildren :: "val list \<Rightarrow> sig list" where
  "signalsInChildren children =
     concat (map (\<lambda>child. case child of Signal x \<Rightarrow> [x] | _ \<Rightarrow> []) children)"

text \<open>\<open>children.map((child) => (isSignal(child) ? readSignal(child) : child))\<close>\<close>

fun read_children :: "val list \<Rightarrow> world \<Rightarrow> val list res \<times> world" where
  "read_children [] w = (Return [], w)"
| "read_children (child # rest) w =
     (case (case child of Signal x \<Rightarrow> readSignal x w | _ \<Rightarrow> (Return child, w)) of
        (Throw e, w1) \<Rightarrow> (Throw e, w1)
      | (Return child2, w1) \<Rightarrow>
          (case read_children rest w1 of
             (Throw e, w2) \<Rightarrow> (Throw e, w2)
           | (Return rest2, w2) \<Rightarrow> (Return (child2 # rest2), w2)))"

definition getChildren :: "val list \<Rightarrow> world \<Rightarrow> val list res \<times> world" where
  "getChildren children w =
     (if signalsInChildren children \<noteq> [] then read_children children w
      else (Return children, w))"

definition getProps :: "val \<Rightarrow> world \<Rightarrow> val res \<times> world" where
  "getProps props w =
     (if findAllSignals props \<noteq> [] then fillAllSignalValues props w else (Return props, w))"

text \<open>The closure \<open>render\<close>: the arguments of the call are evaluated left to right.\<close>

definition render_closure :: "nat \<Rightarrow> val \<Rightarrow> val list \<Rightarrow> world \<Rightarrow> element res \<times> world" where
  "render_closure type props children w =
     (case getProps props w of
        (Throw e, w1) \<Rightarrow> (Throw e, w1)
      | (Return props2, w1) \<Rightarrow>
          (case getChildren children w1 of
             (Throw e, w2) \<Rightarrow> (Throw e, w2)
           | (Return children2, w2) \<Rightarrow> (Return (createElementOrig type props2 children2), w2)))"

definition createElement :: "nat \<Rightarrow> val \<Rightarrow> val list \<Rightarrow> world \<Rightarrow> created \<times> world" where
  "createElement type props children w =
     (if signalsInChildren children = [] \<and> findAllSignals props = []
      then (Direct (createElementOrig type props children), w)
      else
        (let (a, w1) = alloc w in
         (Boundary (a, signalsInChildren children @ findAllSignals props)
            (render_closure type props children), w1)))"

section \<open>Notions used to state the properties\<close>

text \<open>
  The structure as the sequence of its nodes, left to right and depth first: a node, then
  the nodes of its elements (array) or of the values of its own enumerable string-keyed
  properties (object), in their order. \<open>the_signals\<close> keeps the signals of a sequence.
\<close>

fun nodes :: "val \<Rightarrow> val list" where
  "nodes (Arr a xs) = Arr a xs # concat (map nodes xs)"
| "nodes (Obj a es syms hid p) = Obj a es syms hid p # concat (map (\<lambda>kv. nodes (snd kv)) es)"
| "nodes x = [x]"

fun the_signals :: "val list \<Rightarrow> sig list" where
  "the_signals [] = []"
| "the_signals (Signal h # ys) = h # the_signals ys"
| "the_signals (y # ys) = the_signals ys"

definition handle_free :: "val \<Rightarrow> bool" where
  "handle_free x = list_all (\<lambda>y. \<not> isSignal y) (nodes x)"

text \<open>A structure with signals at depth 0, 1 and 3 of its elements, two of them twice.\<close>

definition deep_example :: val where
  "deep_example =
     Arr 10
       [Signal (Sig 1 0 0),
        Obj 11 [(''a'', Signal (Sig 2 0 1)), (''b'', Num 4)] [] [] ObjectPrototype,
        Arr 12 [Obj 13 [(''c'', Arr 14 [Str ''x'', Signal (Sig 3 0 2), Signal (Sig 1 0 0)])]
                  [] [] ObjectPrototype],
        Signal (Sig 2 0 1)]"

text \<open>
  What the registry holds for a pair, the store a call of \<open>signal\<close> means, and a world
  for the examples: nothing cached, every cell holding \<open>0\<close>, no promise touched.
\<close>

definition cached :: "store \<Rightarrow> atom \<Rightarrow> world \<Rightarrow> sig option" where
  "cached store atom w = (case signalCache w store of None \<Rightarrow> None | Some m \<Rightarrow> m atom)"

definition store_of :: "store option \<Rightarrow> world \<Rightarrow> store" where
  "store_of store_arg w = (case store_arg of None \<Rightarrow> getDefaultStore w | Some store \<Rightarrow> store)"

definition world0 :: world where
  "world0 = \<lparr>nextAddr = 100, signalCache = Map.empty, cells = (\<lambda>s c. Num 0),
     promises = (\<lambda>p. \<lparr>pstatus = None, pvalue = Undefined, preason = Undefined,
                        attached = False, settled = None\<rparr>),
     listeners = [], nextSub = 0, defaultStore = 0, reactUse = None\<rparr>"

text \<open>
  What the \<open>use\<close> in force throws to suspend a render: the fallback throws the promise,
  React's \<open>use\<close> a value of its own.
\<close>

definition suspension :: "world \<Rightarrow> val \<Rightarrow> val" where
  "suspension w promise = (case reactUse w of None \<Rightarrow> promise | Some x \<Rightarrow> x)"

text \<open>
  The promise at address \<open>p\<close> as it is in the world \<open>w\<close>: its own enumerable properties
  are the fields that \<open>use\<close> has written so far, \<open>status\<close> first.
\<close>

definition promise_entries :: "promise \<Rightarrow> (string \<times> val) list" where
  "promise_entries pr =
     (case pstatus pr of
        None \<Rightarrow> []
      | Some StatusPending \<Rightarrow> [(''status'', Str ''pending'')]
      | Some StatusFulfilled \<Rightarrow> [(''status'', Str ''fulfilled''), (''value'', pvalue pr)]
      | Some StatusRejected \<Rightarrow> [(''status'', Str ''rejected''), (''reason'', preason pr)])"

definition promise_val :: "world \<Rightarrow> addr \<Rightarrow> val" where
  "promise_val w p = Obj p (promise_entries (promises w p)) [] [] PromisePrototype"

text \<open>
  A thenable that is no \<open>Promise\<close> instance (a plain object with a method \<open>then\<close>), a
  world whose cells hold it, and a world whose cells hold the promise at address 9,
  pending and not yet seen by \<open>use\<close>; the same world under a React that exports \<open>use\<close>;
  and a world in which the promise has been fulfilled with a signal.
\<close>

definition thenable :: val where
  "thenable = Obj 5 [(''then'', Fun 1)] [] [] ObjectPrototype"

definition world_thenable :: world where
  "world_thenable = world0\<lparr>cells := (\<lambda>s c. thenable)\<rparr>"

definition promise9 :: val where
  "promise9 = Obj 9 [] [] [] PromisePrototype"

definition world_promise :: world where
  "world_promise = world0\<lparr>cells := (\<lambda>s c. promise9)\<rparr>"

definition world_react :: world where
  "world_react = world_promise\<lparr>reactUse := Some (Str ''SuspenseException'')\<rparr>"

definition world_fulfilled :: world where
  "world_fulfilled =
     world0\<lparr>promises := (promises world0)
       (9 := \<lparr>pstatus = Some StatusFulfilled, pvalue = Signal (Sig 2 0 1), preason = Undefined,
              attached = False, settled = Some (Inr (Signal (Sig 2 0 1)))\<rparr>)\<rparr>"

text \<open>
  \<open>nan_free\<close>: no \<open>NaN\<close> among the nodes; \<open>clean\<close>: neither a signal nor a \<open>NaN\<close>.
  \<open>same_but_nextAddr w w'\<close>: the world \<open>w'\<close> is \<open>w\<close> after some allocations and nothing
  else. \<open>allocated w x\<close>: every object of \<open>x\<close> exists in \<open>w\<close>, that is, lies below the
  next free address.
\<close>

definition nan_free :: "val \<Rightarrow> bool" where
  "nan_free x = list_all (\<lambda>y. y \<noteq> NaN) (nodes x)"

definition clean :: "val \<Rightarrow> bool" where
  "clean x = (handle_free x \<and> nan_free x)"

definition same_but_nextAddr :: "world \<Rightarrow> world \<Rightarrow> bool" where
  "same_but_nextAddr w w' = (nextAddr w \<le> nextAddr w' \<and> w' = w\<lparr>nextAddr := nextAddr w'\<rparr>)"







definition styled_props :: val where
  "styled_props =
     Obj 1 [(''style'', Obj 2 [(''width'', NaN)] [] [] ObjectPrototype),
            (''title'', Signal (Sig 3 0 0))] [] [] ObjectPrototype"

definition widget_instance :: val where
  "widget_instance =
     Obj 1 [(''a'', Signal (Sig 2 0 0)), (''b'', Str ''x'')]
       [(7, Num 1)] [(''hiddenKey'', Num 2)] (ClassPrototype 3)"

text \<open>
  The instance whose dispatch function is \<open>rerender\<close>: the registrations of \<open>rerender\<close>
  (\<open>own\<close>) and the cells they are for (\<open>subscriptions\<close>). \<open>new_listeners\<close> are the
  registrations one run of the effect adds.
\<close>

definition cell_of :: "sig \<Rightarrow> store \<times> atom" where
  "cell_of s = (sstore s, satom s)"

definition own :: "nat \<Rightarrow> world \<Rightarrow> listener list" where
  "own rerender w = filter (\<lambda>l. lcallback l = rerender) (listeners w)"

definition subscriptions :: "nat \<Rightarrow> world \<Rightarrow> (store \<times> atom) list" where
  "subscriptions rerender w = map (\<lambda>l. (lstore l, latom l)) (own rerender w)"

fun new_listeners :: "nat \<Rightarrow> sig list \<Rightarrow> nat \<Rightarrow> listener list" where
  "new_listeners n [] rerender = []"
| "new_listeners n (s # rest) rerender =
     Listener n (sstore s) (satom s) rerender # new_listeners (Suc n) rest rerender"

text \<open>
  What holds of an instance between passes: the ids its cleanup holds are those of its
  registrations; ids are distinct and below the next id; before the first render no
  effect has run; after, the effect is keyed on the committed list and the instance is
  subscribed to exactly the cells of that list, once per entry.
\<close>

definition boundary_inv :: "nat \<Rightarrow> hooks \<Rightarrow> world \<Rightarrow> bool" where
  "boundary_inv rerender h w =
     (map lid (own rerender w) = unsubs h
      \<and> distinct (map lid (listeners w))
      \<and> list_all (\<lambda>l. lid l < nextSub w) (listeners w)
      \<and> (case memoState h of
            None \<Rightarrow> effectDeps h = None \<and> unsubs h = []
          | Some m \<Rightarrow> effectDeps h = Some (fst m) \<and> subscriptions rerender w = map cell_of (snd m)))"

text \<open>
  An array is not mutated after it is built (\<open>createElement\<close> builds a new \<open>signals\<close>
  array at each call): a list that is the committed array has its elements. The closure
  \<open>render\<close> does not touch the subscriptions.
\<close>

definition array_unchanged :: "sig arr \<Rightarrow> hooks \<Rightarrow> bool" where
  "array_unchanged signals h =
     (case memoState h of None \<Rightarrow> True
      | Some m \<Rightarrow> fst m \<noteq> fst signals \<or> snd m = snd signals)"

definition keeps_listeners :: "(world \<Rightarrow> 'e res \<times> world) \<Rightarrow> bool" where
  "keeps_listeners render =
     (\<forall>w. listeners (snd (render w)) = listeners w \<and> nextSub (snd (render w)) = nextSub w)"

text \<open>Whether \<open>useMemoList\<close> sees a change, and the state it leaves.\<close>

definition memo_changed :: "sig arr \<Rightarrow> hooks \<Rightarrow> bool" where
  "memo_changed signals h =
     (case memoState h of None \<Rightarrow> False
      | Some m \<Rightarrow> listChanged compareFn_default (snd signals) (snd m))"

definition memo_after :: "sig arr \<Rightarrow> hooks \<Rightarrow> sig arr" where
  "memo_after signals h =
     (case memoState h of None \<Rightarrow> signals
      | Some m \<Rightarrow> if listChanged compareFn_default (snd signals) (snd m) then signals else m)"

text \<open>
  The states of an example: an instance mounted with the list \<open>[h1]\<close>, and after a pass
  with the list \<open>[]\<close>.
\<close>

definition hooks_mounted :: hooks where
  "hooks_mounted = \<lparr>counter = 0, memoState = Some (50, [Sig 1 0 0]), effectDeps = Some 50, unsubs = [0]\<rparr>"

definition world_mounted :: world where
  "world_mounted = world0\<lparr>listeners := [Listener 0 0 0 7], nextSub := 1\<rparr>"

definition hooks_emptied :: hooks where
  "hooks_emptied = \<lparr>counter = 0, memoState = Some (51, []), effectDeps = Some 51, unsubs = []\<rparr>"

definition world_emptied :: world where
  "world_emptied = world0\<lparr>listeners := [], nextSub := 1\<rparr>"

text \<open>An object with a signal in one field and a plain object in the other.\<close>

definition two_fields :: val where
  "two_fields =
     Obj 1 [(''label'', Signal (Sig 3 0 0)), (''style'', Obj 2 [(''width'', Num 5)] [] [] ObjectPrototype)]
       [] [] ObjectPrototype"

section \<open>Properties\<close>

subsection \<open>The scanner finds the signals in encounter order\<close>

lemma the_signals_append: "the_signals (xs @ ys) = the_signals xs @ the_signals ys"
  by (induction xs rule: the_signals.induct) simp_all

lemma the_signals_concat: "the_signals (concat xss) = concat (map the_signals xss)"
  by (induction xss) (simp_all add: the_signals_append)

lemma findAllSignals_nodes: "findAllSignals x = the_signals (nodes x)"
proof (induction x rule: findAllSignals.induct)
  case (2 a xs)
  then show ?case by (simp add: the_signals_concat cong: map_cong)
next
  case (3 a es syms hid p)
  then show ?case by (simp add: the_signals_concat cong: map_cong)
qed simp_all

lemma count_the_signals: "count_list (the_signals ys) h = count_list ys (Signal h)"
  by (induction ys rule: the_signals.induct) auto

lemma the_signals_none: "list_all (\<lambda>y. \<not> isSignal y) ys \<Longrightarrow> the_signals ys = []"
  by (induction ys rule: the_signals.induct) auto

lemma findAllSignals_promise_val:
  "findAllSignals (promise_val w p) =
     (case pstatus (promises w p) of
        Some StatusFulfilled \<Rightarrow> findAllSignals (pvalue (promises w p))
      | Some StatusRejected \<Rightarrow> findAllSignals (preason (promises w p))
      | _ \<Rightarrow> [])"
  by (simp add: promise_val_def promise_entries_def split: option.splits pstatus.splits)

text \<open>
  Claim C5. On every structure (a tree, so acyclic) \<open>findAllSignals\<close> returns exactly
  the signals among its nodes, in left-to-right depth-first order; a signal that occurs
  \<open>k\<close> times in the structure occurs \<open>k\<close> times in the result (nothing is deduplicated);
  the result is empty for \<open>null\<close>, \<open>undefined\<close>, numbers, strings, functions and for
  every object or array with no signal in it. A \<open>Promise\<close> instance is an object like
  any other: the fields that \<open>use\<close> has written on it are walked, so the signals in the
  value it was fulfilled with, or in the reason it was rejected with, are found.
\<close>

theorem findAllSignals_encounter_order:
  "findAllSignals x = the_signals (nodes x)
   \<and> count_list (findAllSignals x) h = count_list (nodes x) (Signal h)
   \<and> findAllSignals Null = [] \<and> findAllSignals Undefined = []
   \<and> findAllSignals (Num n) = [] \<and> findAllSignals NaN = []
   \<and> findAllSignals (Str s) = [] \<and> findAllSignals (Fun f) = []
   \<and> (handle_free x \<longrightarrow> findAllSignals x = [])
   \<and> findAllSignals (promise_val w p) =
        (case pstatus (promises w p) of
           Some StatusFulfilled \<Rightarrow> findAllSignals (pvalue (promises w p))
         | Some StatusRejected \<Rightarrow> findAllSignals (preason (promises w p))
         | _ \<Rightarrow> [])"
proof -
  have "findAllSignals x = the_signals (nodes x)"
    by (rule findAllSignals_nodes)
  moreover have "count_list (findAllSignals x) h = count_list (nodes x) (Signal h)"
    by (simp add: findAllSignals_nodes count_the_signals)
  moreover have "handle_free x \<longrightarrow> findAllSignals x = []"
    by (simp add: findAllSignals_nodes the_signals_none handle_free_def)
  ultimately show ?thesis
    by (simp add: findAllSignals_promise_val)
qed

theorem findAllSignals_encounter_order_witness:
  "findAllSignals deep_example = [Sig 1 0 0, Sig 2 0 1, Sig 3 0 2, Sig 1 0 0, Sig 2 0 1]
   \<and> count_list (findAllSignals deep_example) (Sig 1 0 0) = 2
   \<and> count_list (nodes deep_example) (Signal (Sig 1 0 0)) = 2
   \<and> handle_free (Obj 11 [(''b'', Arr 12 [Num 4, Null])] [] [] ObjectPrototype)
   \<and> findAllSignals (Obj 11 [(''b'', Arr 12 [Num 4, Null])] [] [] ObjectPrototype) = []
   \<and> promise_val world_fulfilled 9
       = Obj 9 [(''status'', Str ''fulfilled''), (''value'', Signal (Sig 2 0 1))] [] [] PromisePrototype
   \<and> findAllSignals (promise_val world_fulfilled 9) = [Sig 2 0 1]
   \<and> the_signals (nodes (promise_val world_fulfilled 9)) = [Sig 2 0 1]"
  using findAllSignals_encounter_order
      [where x = deep_example and h = "Sig 1 0 0" and w = world_fulfilled and p = 9]
    findAllSignals_encounter_order
      [where x = "Obj 11 [(''b'', Arr 12 [Num 4, Null])] [] [] ObjectPrototype"
        and w = world_fulfilled and p = 9]
    findAllSignals_encounter_order
      [where x = "promise_val world_fulfilled 9" and w = world_fulfilled and p = 9]
  by (simp add: deep_example_def handle_free_def promise_val_def promise_entries_def
      world_fulfilled_def)

subsection \<open>The registry returns one signal per store and atom\<close>

lemma getSignal_cached_hit:
  "cached store atom w = Some h \<Longrightarrow> getSignal store atom w = (h, w)"
  by (auto simp: cached_def getSignal_def split: option.splits)

lemma getSignal_caches:
  "cached store atom (snd (getSignal store atom w)) = Some (fst (getSignal store atom w))"
  by (auto simp: cached_def getSignal_def alloc_def Let_def split: option.splits)

lemma getSignal_cached_miss:
  "cached store atom w = None \<Longrightarrow> fst (getSignal store atom w) = Sig (nextAddr w) store atom"
  by (auto simp: cached_def getSignal_def alloc_def Let_def split: option.splits)

lemma getSignal_keeps:
  "cached store atom w = Some h \<Longrightarrow> cached store atom (snd (getSignal store' atom' w)) = Some h"
  by (auto simp: cached_def getSignal_def alloc_def Let_def split: option.splits)

lemma getSignal_defaultStore: "defaultStore (snd (getSignal store atom w)) = defaultStore w"
  by (auto simp: getSignal_def alloc_def Let_def split: option.splits)

lemma signal_calls_keeps:
  "cached store atom w = Some h \<Longrightarrow> cached store atom (signal_calls cs w) = Some h"
  by (induction cs arbitrary: w) (simp_all add: signal_def getSignal_keeps)

lemma signal_calls_defaultStore: "defaultStore (signal_calls cs w) = defaultStore w"
  by (induction cs arbitrary: w) (simp_all add: signal_def getSignal_defaultStore)

text \<open>
  Claim C1. A call \<open>signal(atom, store)\<close> leaves its result in the registry, and every
  later call for the same pair, after any other calls of \<open>signal\<close>, returns that same
  signal (the same object, at the same address) and changes nothing. The first call for
  a pair allocates the signal at a fresh address; a call for a cached pair returns the
  cached signal. The registry never drops an entry here: the weak maps of the source
  drop one only when its store or atom is unreachable.
\<close>

theorem signal_same_handle:
  "cached (store_of store_arg w) atom (snd (signal atom store_arg w)) = Some (fst (signal atom store_arg w))
   \<and> signal atom store_arg (signal_calls cs (snd (signal atom store_arg w)))
       = (fst (signal atom store_arg w), signal_calls cs (snd (signal atom store_arg w)))
   \<and> (cached (store_of store_arg w) atom w = None \<longrightarrow>
        fst (signal atom store_arg w) = Sig (nextAddr w) (store_of store_arg w) atom)
   \<and> (cached (store_of store_arg w) atom w = Some h \<longrightarrow> signal atom store_arg w = (h, w))"
proof -
  let ?st = "store_of store_arg w"
  let ?w1 = "snd (signal atom store_arg w)"
  let ?w2 = "signal_calls cs ?w1"
  have sig: "signal atom store_arg w = getSignal ?st atom w"
    by (simp add: signal_def store_of_def)
  have c1: "cached ?st atom ?w1 = Some (fst (signal atom store_arg w))"
    by (simp add: sig getSignal_caches)
  have d: "store_of store_arg ?w2 = ?st"
    by (cases store_arg)
      (simp_all add: store_of_def getDefaultStore_def signal_calls_defaultStore signal_def getSignal_defaultStore)
  have "cached ?st atom ?w2 = Some (fst (signal atom store_arg w))"
    using c1 by (rule signal_calls_keeps)
  then have c2: "getSignal ?st atom ?w2 = (fst (signal atom store_arg w), ?w2)"
    by (rule getSignal_cached_hit)
  have "signal atom store_arg ?w2 = getSignal (store_of store_arg ?w2) atom ?w2"
    by (simp add: signal_def store_of_def)
  with c2 d have c3: "signal atom store_arg ?w2 = (fst (signal atom store_arg w), ?w2)"
    by simp
  show ?thesis
    using c1 c3 by (simp add: sig getSignal_cached_miss getSignal_cached_hit)
qed

theorem signal_same_handle_witness:
  "cached 7 3 world0 = None
   \<and> fst (signal 3 (Some 7) world0) = Sig 100 7 3
   \<and> fst (signal 3 (Some 7) (signal_calls [(4, None), (3, Some 8)] (snd (signal 3 (Some 7) world0)))) = Sig 100 7 3
   \<and> cached 7 3 (snd (signal 3 (Some 7) world0)) = Some (Sig 100 7 3)
   \<and> signal 3 (Some 7) (snd (signal 3 (Some 7) world0)) = (Sig 100 7 3, snd (signal 3 (Some 7) world0))"
proof -
  have miss: "cached 7 3 world0 = None"
    by (simp add: cached_def world0_def)
  have st: "store_of (Some 7) world0 = 7"
    by (simp add: store_of_def)
  note t = signal_same_handle [of "Some 7" world0 3 "[(4, None), (3, Some 8)]" "Sig 100 7 3"]
  note t0 = signal_same_handle [of "Some 7" world0 3 "[]" "Sig 100 7 3"]
  have first: "fst (signal 3 (Some 7) world0) = Sig 100 7 3"
    using t miss st by (simp add: world0_def)
  show ?thesis
    using t t0 first miss st by simp
qed

subsection \<open>The list-stability helper keeps the committed list\<close>

lemma listChanged_iff: "listChanged compareFn xs ys \<longleftrightarrow> \<not> list_all2 compareFn xs ys"
  by (auto simp: listChanged_def list_all2_conv_all_nth list_ex_iff)

text \<open>
  Claim C8. Given a freshly computed list (an array that is not the committed one) and
  the committed list, \<open>useMemoList\<close> returns the committed array itself if and only if
  the two have the same length and are element-wise equal under \<open>compareFn\<close>; then the
  state stays and \<open>setState\<close> is not called. Otherwise it returns the new list, which
  \<open>setState\<close> makes the new state. The default \<open>compareFn\<close> is reference equality.
\<close>

theorem useMemoList_returns_previous_iff:
  assumes "fst list \<noteq> fst state"
  shows "(case useMemoList compareFn list (Some state) of
           (result, slot, scheduled) \<Rightarrow>
             (fst result = fst state \<longleftrightarrow>
                length (snd list) = length (snd state) \<and> list_all2 compareFn (snd list) (snd state))
             \<and> (if list_all2 compareFn (snd list) (snd state)
                 then result = state \<and> slot = Some state \<and> \<not> scheduled
                 else result = list \<and> slot = Some list \<and> scheduled))
         \<and> compareFn_default a b = (saddr a = saddr b)"
  using assms
  by (auto simp: useMemoList_def listChanged_iff compareFn_default_def dest: list_all2_lengthD)

theorem useMemoList_returns_previous_iff_witness:
  "fst (5, [Sig 1 0 0, Sig 2 0 1]) \<noteq> fst (4::nat, [Sig 1 0 0, Sig 2 0 1])
   \<and> useMemoList compareFn_default (5, [Sig 1 0 0, Sig 2 0 1]) (Some (4, [Sig 1 0 0, Sig 2 0 1]))
       = ((4, [Sig 1 0 0, Sig 2 0 1]), Some (4, [Sig 1 0 0, Sig 2 0 1]), False)
   \<and> useMemoList compareFn_default (5, [Sig 2 0 1, Sig 1 0 0]) (Some (4, [Sig 1 0 0, Sig 2 0 1]))
       = ((5, [Sig 2 0 1, Sig 1 0 0]), Some (5, [Sig 2 0 1, Sig 1 0 0]), True)
   \<and> useMemoList compareFn_default (5, [Sig 1 0 0]) (Some (4, [Sig 1 0 0, Sig 2 0 1]))
       = ((5, [Sig 1 0 0]), Some (5, [Sig 1 0 0]), True)"
  using useMemoList_returns_previous_iff
      [of "(5, [Sig 1 0 0, Sig 2 0 1])" "(4, [Sig 1 0 0, Sig 2 0 1])" compareFn_default]
    useMemoList_returns_previous_iff
      [of "(5, [Sig 2 0 1, Sig 1 0 0])" "(4, [Sig 1 0 0, Sig 2 0 1])" compareFn_default]
    useMemoList_returns_previous_iff
      [of "(5, [Sig 1 0 0])" "(4, [Sig 1 0 0, Sig 2 0 1])" compareFn_default]
  by (simp add: compareFn_default_def split: prod.splits)

subsection \<open>Only Promise instances are pending\<close>

lemma instanceofPromise_iff:
  "instanceofPromise v \<longleftrightarrow> (\<exists>a es syms hid. v = Obj a es syms hid PromisePrototype)"
  by (cases v) auto

lemma readSignal_immediate:
  "\<not> instanceofPromise (read sg w) \<Longrightarrow> readSignal sg w = (Return (read sg w), w)"
  by (simp add: readSignal_def)

lemma readSignal_Promise:
  "instanceofPromise (read sg w) \<Longrightarrow> readSignal sg w = use (read sg w) w"
  by (simp add: readSignal_def)

text \<open>
  Claim C9. \<open>readSignal\<close> takes the value it read for pending only when it is an
  instance of \<open>Promise\<close>, and then hands it to \<open>use\<close>; any other value, a thenable that
  is no \<open>Promise\<close> instance included, is returned at once and unchanged, and nothing
  else happens.
\<close>

theorem readSignal_pending_only_instanceof_Promise:
  "(\<not> instanceofPromise (read sg w) \<longrightarrow> readSignal sg w = (Return (read sg w), w))
   \<and> (instanceofPromise (read sg w) \<longrightarrow> readSignal sg w = use (read sg w) w)
   \<and> (instanceofPromise v \<longleftrightarrow> (\<exists>a es syms hid. v = Obj a es syms hid PromisePrototype))"
  by (simp add: readSignal_immediate readSignal_Promise instanceofPromise_iff)

theorem readSignal_pending_only_instanceof_Promise_witness:
  "\<not> instanceofPromise (read (Sig 1 0 0) world_thenable)
   \<and> readSignal (Sig 1 0 0) world_thenable = (Return thenable, world_thenable)
   \<and> read (Sig 1 0 0) world_promise = promise9
   \<and> instanceofPromise (read (Sig 1 0 0) world_promise)
   \<and> readSignal (Sig 1 0 0) world_promise = use promise9 world_promise"
  using readSignal_pending_only_instanceof_Promise [of "Sig 1 0 0" world_thenable Null]
    readSignal_pending_only_instanceof_Promise [of "Sig 1 0 0" world_promise Null]
  by (simp add: read_def world_thenable_def world_promise_def thenable_def promise9_def)

subsection \<open>Reading suspends on a pending promise\<close>

lemma use_eq:
  "use promise w =
     (let p = address promise; pr = promises w p in
      case pstatus pr of
        Some StatusPending \<Rightarrow> (Throw (suspension w promise), w)
      | Some StatusFulfilled \<Rightarrow> (Return (pvalue pr), w)
      | Some StatusRejected \<Rightarrow> (Throw (preason pr), w)
      | None \<Rightarrow>
          (Throw (suspension w promise),
           w\<lparr>promises := (promises w)
                (p := pr\<lparr>pstatus := Some StatusPending, attached := True\<rparr>)\<rparr>))"
  by (cases "reactUse w"; cases "pstatus (promises w (address promise))")
    (simp_all add: use_def use_fallback_def use_react_def suspension_def Let_def
      split: pstatus.splits)

lemma read_promises_upd [simp]: "read sg (w\<lparr>promises := f\<rparr>) = read sg w"
  by (simp add: read_def)

lemma read_run_reactions [simp]: "read sg (run_reactions p w) = read sg w"
  by (simp add: run_reactions_def Let_def read_def split: option.splits sum.splits)

lemma read_settle [simp]: "read sg (settle p outcome w) = read sg w"
  by (simp add: settle_def Let_def split: option.splits)

lemma read_use [simp]: "read sg (snd (use promise w)) = read sg w"
  by (simp add: use_eq Let_def split: option.splits pstatus.splits)

lemma use_untracked:
  "pstatus (promises w (address promise)) = None \<Longrightarrow>
   use promise w =
     (Throw (suspension w promise),
      w\<lparr>promises := (promises w)
           (address promise := (promises w (address promise))
              \<lparr>pstatus := Some StatusPending, attached := True\<rparr>)\<rparr>)"
  by (simp add: use_eq Let_def)

lemma use_pending:
  "pstatus (promises w (address promise)) = Some StatusPending \<Longrightarrow>
   use promise w = (Throw (suspension w promise), w)"
  by (simp add: use_eq Let_def)

lemma use_tracked_then_settled:
  assumes "pstatus (promises w (address promise)) = Some StatusPending"
    "attached (promises w (address promise))" "settled (promises w (address promise)) = None"
  shows "use promise (settle (address promise) (Inr v) w) = (Return v, settle (address promise) (Inr v) w)"
    and "use promise (settle (address promise) (Inl e) w) = (Throw e, settle (address promise) (Inl e) w)"
  using assms by (simp_all add: settle_def run_reactions_def use_eq Let_def)

lemma use_after_settled:
  assumes "pstatus (promises w (address promise)) = None" "settled (promises w (address promise)) = None"
  shows "use promise (settle (address promise) (Inr v) (snd (use promise w)))
           = (Return v, settle (address promise) (Inr v) (snd (use promise w)))"
    and "use promise (settle (address promise) (Inl e) (snd (use promise w)))
           = (Throw e, settle (address promise) (Inl e) (snd (use promise w)))"
  using assms by (simp_all add: use_untracked use_tracked_then_settled)

lemma use_twice:
  assumes "pstatus (promises w (address promise)) = None"
  shows "use promise (snd (use promise w)) = (Throw (suspension w promise), snd (use promise w))"
  using assms by (simp add: use_untracked use_pending suspension_def)

lemma use_settled_before:
  assumes "pstatus (promises w (address promise)) = None"
  shows "settled (promises w (address promise)) = Some (Inr v) \<Longrightarrow>
           use promise (run_reactions (address promise) (snd (use promise w)))
             = (Return v, run_reactions (address promise) (snd (use promise w)))"
    and "settled (promises w (address promise)) = Some (Inl e) \<Longrightarrow>
           use promise (run_reactions (address promise) (snd (use promise w)))
             = (Throw e, run_reactions (address promise) (snd (use promise w)))"
  using assms by (simp_all add: use_untracked run_reactions_def use_eq Let_def)

text \<open>
  Claim C7 as stated fails: under a React that exports \<open>use\<close>, a read of a pending
  promise that has not been seen suspends the render, but what is thrown is the value of
  React's \<open>use\<close>, not the promise.
\<close>

theorem readSignal_throws_promise_counterexample:
  "instanceofPromise (read (Sig 1 0 0) world_react)
   \<and> pstatus (promises world_react (address (read (Sig 1 0 0) world_react))) = None
   \<and> fst (readSignal (Sig 1 0 0) world_react) = Throw (Str ''SuspenseException'')
   \<and> fst (readSignal (Sig 1 0 0) world_react) \<noteq> Throw (read (Sig 1 0 0) world_react)"
  by (simp add: readSignal_def use_eq suspension_def read_def world_react_def world_promise_def
      world0_def promise9_def)

text \<open>
  Claim C7, as amended. \<open>readSignal\<close> returns a value that is no \<open>Promise\<close> instance at
  once and unchanged, and hands a \<open>Promise\<close> instance to the \<open>use\<close> in force. When the
  promise has not been seen by \<open>use\<close> or is marked pending, the call suspends the render:
  it throws the promise itself when the fallback of the module is in force, the value of
  React's \<open>use\<close> when React exports one; the promise is then marked pending, and a read
  of a promise already marked pending changes nothing. Once a promise that \<open>use\<close> tracks
  has been fulfilled with \<open>v\<close>, after one read or after any further reads while it was
  pending, the next call returns \<open>v\<close>; once it has been rejected with \<open>e\<close>, the next call
  throws \<open>e\<close>. The same holds for a promise that had settled before \<open>use\<close> first saw it.
\<close>

theorem readSignal_suspends_then_resumes:
  "(\<not> instanceofPromise (read sg w) \<longrightarrow> readSignal sg w = (Return (read sg w), w))
   \<and> (instanceofPromise (read sg w) \<longrightarrow> readSignal sg w = use (read sg w) w)
   \<and> (reactUse w = None \<longrightarrow> suspension w (read sg w) = read sg w)
   \<and> (reactUse w = Some x \<longrightarrow> suspension w (read sg w) = x)
   \<and> (instanceofPromise (read sg w) \<and> address (read sg w) = p
        \<and> pstatus (promises w p) \<in> {None, Some StatusPending} \<longrightarrow>
        fst (readSignal sg w) = Throw (suspension w (read sg w))
        \<and> pstatus (promises (snd (readSignal sg w)) p) = Some StatusPending)
   \<and> (instanceofPromise (read sg w) \<and> address (read sg w) = p
        \<and> pstatus (promises w p) = Some StatusPending \<longrightarrow>
        readSignal sg w = (Throw (suspension w (read sg w)), w))
   \<and> (instanceofPromise (read sg w) \<and> address (read sg w) = p
        \<and> pstatus (promises w p) = None \<and> settled (promises w p) = None \<longrightarrow>
        readSignal sg (settle p (Inr v) (snd (readSignal sg w)))
          = (Return v, settle p (Inr v) (snd (readSignal sg w)))
        \<and> readSignal sg (settle p (Inl e) (snd (readSignal sg w)))
          = (Throw e, settle p (Inl e) (snd (readSignal sg w)))
        \<and> readSignal sg (snd (readSignal sg w))
          = (Throw (suspension w (read sg w)), snd (readSignal sg w))
        \<and> readSignal sg (settle p (Inr v) (snd (readSignal sg (snd (readSignal sg w)))))
          = (Return v, settle p (Inr v) (snd (readSignal sg (snd (readSignal sg w)))))
        \<and> readSignal sg (settle p (Inl e) (snd (readSignal sg (snd (readSignal sg w)))))
          = (Throw e, settle p (Inl e) (snd (readSignal sg (snd (readSignal sg w))))))
   \<and> (instanceofPromise (read sg w) \<and> address (read sg w) = p
        \<and> pstatus (promises w p) = Some StatusPending \<and> attached (promises w p)
        \<and> settled (promises w p) = None \<longrightarrow>
        readSignal sg (settle p (Inr v) w) = (Return v, settle p (Inr v) w)
        \<and> readSignal sg (settle p (Inl e) w) = (Throw e, settle p (Inl e) w))
   \<and> (instanceofPromise (read sg w) \<and> address (read sg w) = p
        \<and> pstatus (promises w p) = None \<and> settled (promises w p) = Some (Inr v) \<longrightarrow>
        readSignal sg (run_reactions p (snd (readSignal sg w)))
          = (Return v, run_reactions p (snd (readSignal sg w))))
   \<and> (instanceofPromise (read sg w) \<and> address (read sg w) = p
        \<and> pstatus (promises w p) = None \<and> settled (promises w p) = Some (Inl e) \<longrightarrow>
        readSignal sg (run_reactions p (snd (readSignal sg w)))
          = (Throw e, run_reactions p (snd (readSignal sg w))))"
proof -
  let ?v = "read sg w"
  have a: "\<not> instanceofPromise ?v \<longrightarrow> readSignal sg w = (Return ?v, w)"
    by (simp add: readSignal_immediate)
  have a2: "instanceofPromise ?v \<longrightarrow> readSignal sg w = use ?v w"
    by (simp add: readSignal_Promise)
  have s1: "reactUse w = None \<longrightarrow> suspension w ?v = ?v"
    and s2: "reactUse w = Some x \<longrightarrow> suspension w ?v = x"
    by (simp_all add: suspension_def)
  have r: "instanceofPromise ?v \<Longrightarrow> readSignal sg w' = use ?v w'" if "read sg w' = ?v" for w'
    using that readSignal_Promise [of sg w'] by simp
  have r0: "instanceofPromise ?v \<Longrightarrow> readSignal sg w = use ?v w"
    by (rule r) simp
  have r1: "instanceofPromise ?v \<Longrightarrow>
      readSignal sg (settle q y (snd (use ?v w))) = use ?v (settle q y (snd (use ?v w)))" for q y
    by (rule r) simp
  have r2: "instanceofPromise ?v \<Longrightarrow>
      readSignal sg (run_reactions q (snd (use ?v w))) = use ?v (run_reactions q (snd (use ?v w)))" for q
    by (rule r) simp
  have r3: "instanceofPromise ?v \<Longrightarrow> readSignal sg (snd (use ?v w)) = use ?v (snd (use ?v w))"
    by (rule r) simp
  have r4: "instanceofPromise ?v \<Longrightarrow> readSignal sg (settle q y w) = use ?v (settle q y w)" for q y
    by (rule r) simp
  have b: "instanceofPromise ?v \<and> address ?v = p
        \<and> pstatus (promises w p) \<in> {None, Some StatusPending} \<longrightarrow>
        fst (readSignal sg w) = Throw (suspension w ?v)
        \<and> pstatus (promises (snd (readSignal sg w)) p) = Some StatusPending"
    by (auto simp: r0 use_untracked use_pending)
  have b2: "instanceofPromise ?v \<and> address ?v = p
        \<and> pstatus (promises w p) = Some StatusPending \<longrightarrow>
        readSignal sg w = (Throw (suspension w ?v), w)"
    by (auto simp: r0 use_pending)
  have c: "instanceofPromise ?v \<and> address ?v = p
        \<and> pstatus (promises w p) = None \<and> settled (promises w p) = None \<longrightarrow>
        readSignal sg (settle p (Inr v) (snd (readSignal sg w)))
          = (Return v, settle p (Inr v) (snd (readSignal sg w)))
        \<and> readSignal sg (settle p (Inl e) (snd (readSignal sg w)))
          = (Throw e, settle p (Inl e) (snd (readSignal sg w)))
        \<and> readSignal sg (snd (readSignal sg w))
          = (Throw (suspension w ?v), snd (readSignal sg w))
        \<and> readSignal sg (settle p (Inr v) (snd (readSignal sg (snd (readSignal sg w)))))
          = (Return v, settle p (Inr v) (snd (readSignal sg (snd (readSignal sg w)))))
        \<and> readSignal sg (settle p (Inl e) (snd (readSignal sg (snd (readSignal sg w)))))
          = (Throw e, settle p (Inl e) (snd (readSignal sg (snd (readSignal sg w)))))"
    using use_after_settled(1) [of w ?v v] use_after_settled(2) [of w ?v e] use_twice [of w ?v]
    by (auto simp: r0 r1 r3)
  have d0: "instanceofPromise ?v \<and> address ?v = p
        \<and> pstatus (promises w p) = Some StatusPending \<and> attached (promises w p)
        \<and> settled (promises w p) = None \<longrightarrow>
        readSignal sg (settle p (Inr v) w) = (Return v, settle p (Inr v) w)
        \<and> readSignal sg (settle p (Inl e) w) = (Throw e, settle p (Inl e) w)"
    using use_tracked_then_settled(1) [of w ?v v] use_tracked_then_settled(2) [of w ?v e]
    by (auto simp: r4)
  have d: "instanceofPromise ?v \<and> address ?v = p
        \<and> pstatus (promises w p) = None \<and> settled (promises w p) = Some (Inr v) \<longrightarrow>
        readSignal sg (run_reactions p (snd (readSignal sg w)))
          = (Return v, run_reactions p (snd (readSignal sg w)))"
    using use_settled_before(1) [of w ?v v] by (auto simp: r0 r2)
  have e: "instanceofPromise ?v \<and> address ?v = p
        \<and> pstatus (promises w p) = None \<and> settled (promises w p) = Some (Inl e) \<longrightarrow>
        readSignal sg (run_reactions p (snd (readSignal sg w)))
          = (Throw e, run_reactions p (snd (readSignal sg w)))"
    using use_settled_before(2) [of w ?v e] by (auto simp: r0 r2)
  from a a2 s1 s2 b b2 c d0 d e show ?thesis by blast
qed

theorem readSignal_suspends_then_resumes_witness:
  "\<not> instanceofPromise (read (Sig 1 0 0) world0)
   \<and> readSignal (Sig 1 0 0) world0 = (Return (Num 0), world0)
   \<and> instanceofPromise (read (Sig 1 0 0) world_promise)
   \<and> address (read (Sig 1 0 0) world_promise) = 9
   \<and> reactUse world_promise = None
   \<and> pstatus (promises world_promise 9) = None
   \<and> settled (promises world_promise 9) = None
   \<and> fst (readSignal (Sig 1 0 0) world_promise) = Throw promise9
   \<and> fst (readSignal (Sig 1 0 0) (snd (readSignal (Sig 1 0 0) world_promise))) = Throw promise9
   \<and> fst (readSignal (Sig 1 0 0)
             (settle 9 (Inr (Str ''ready''))
                (snd (readSignal (Sig 1 0 0) (snd (readSignal (Sig 1 0 0) world_promise))))))
       = Return (Str ''ready'')
   \<and> fst (readSignal (Sig 1 0 0)
             (settle 9 (Inl (Str ''E''))
                (snd (readSignal (Sig 1 0 0) (snd (readSignal (Sig 1 0 0) world_promise))))))
       = Throw (Str ''E'')
   \<and> reactUse world_react = Some (Str ''SuspenseException'')
   \<and> fst (readSignal (Sig 1 0 0) world_react) = Throw (Str ''SuspenseException'')
   \<and> fst (readSignal (Sig 1 0 0)
             (settle 9 (Inr (Str ''ready'')) (snd (readSignal (Sig 1 0 0) world_react))))
       = Return (Str ''ready'')"
proof -
  let ?sg = "Sig 1 0 0"
  have h0: "\<not> instanceofPromise (read ?sg world0)" and v0: "read ?sg world0 = Num 0"
    by (simp_all add: read_def world0_def)
  have h1: "read ?sg world_promise = promise9" and h1': "read ?sg world_react = promise9"
    by (simp_all add: read_def world_promise_def world_react_def)
  have h2: "instanceofPromise promise9" and h2': "address promise9 = 9"
    by (simp_all add: promise9_def)
  have h3: "pstatus (promises world_promise 9) = None" "settled (promises world_promise 9) = None"
    and u3: "reactUse world_promise = None"
    by (simp_all add: world_promise_def world0_def)
  have h4: "pstatus (promises world_react 9) = None" "settled (promises world_react 9) = None"
    and u4: "reactUse world_react = Some (Str ''SuspenseException'')"
    by (simp_all add: world_react_def world_promise_def world0_def)
  have p3: "instanceofPromise (read ?sg world_promise) \<and> address (read ?sg world_promise) = 9
      \<and> pstatus (promises world_promise 9) = None \<and> settled (promises world_promise 9) = None"
    using h1 h2 h2' h3 by simp
  have p4: "instanceofPromise (read ?sg world_react) \<and> address (read ?sg world_react) = 9
      \<and> pstatus (promises world_react 9) = None \<and> settled (promises world_react 9) = None"
    using h1' h2 h2' h4 by simp
  note t0 = readSignal_suspends_then_resumes [of ?sg world0 Null 0 Null Null]
  note t1 = readSignal_suspends_then_resumes
    [of ?sg world_promise Null 9 "Str ''ready''" "Str ''E''"]
  note t2 = readSignal_suspends_then_resumes
    [of ?sg world_react "Str ''SuspenseException''" 9 "Str ''ready''" "Str ''E''"]
  from t0 [THEN conjunct1, THEN mp, OF h0] v0
  have a: "readSignal ?sg world0 = (Return (Num 0), world0)"
    by simp
  from t1 [THEN conjunct2, THEN conjunct2, THEN conjunct1, THEN mp, OF u3] h1
  have s3: "suspension world_promise (read ?sg world_promise) = promise9"
    by simp
  from t2 [THEN conjunct2, THEN conjunct2, THEN conjunct2, THEN conjunct1, THEN mp, OF u4]
  have s4: "suspension world_react (read ?sg world_react) = Str ''SuspenseException''" .
  have p3': "instanceofPromise (read ?sg world_promise) \<and> address (read ?sg world_promise) = 9
      \<and> pstatus (promises world_promise 9) \<in> {None, Some StatusPending}"
    using p3 by simp
  have p4': "instanceofPromise (read ?sg world_react) \<and> address (read ?sg world_react) = 9
      \<and> pstatus (promises world_react 9) \<in> {None, Some StatusPending}"
    using p4 by simp
  from t1 [THEN conjunct2, THEN conjunct2, THEN conjunct2, THEN conjunct2, THEN conjunct1, THEN mp, OF p3'] s3
  have b: "fst (readSignal ?sg world_promise) = Throw promise9"
    by simp
  note seq = t1 [THEN conjunct2, THEN conjunct2, THEN conjunct2, THEN conjunct2, THEN conjunct2, THEN conjunct2, THEN conjunct1, THEN mp, OF p3]
  from seq s3 have c: "fst (readSignal ?sg (snd (readSignal ?sg world_promise))) = Throw promise9"
    by simp
  from seq have d: "fst (readSignal ?sg
             (settle 9 (Inr (Str ''ready''))
                (snd (readSignal ?sg (snd (readSignal ?sg world_promise)))))) = Return (Str ''ready'')"
    by simp
  from seq have e: "fst (readSignal ?sg
             (settle 9 (Inl (Str ''E''))
                (snd (readSignal ?sg (snd (readSignal ?sg world_promise)))))) = Throw (Str ''E'')"
    by simp
  from t2 [THEN conjunct2, THEN conjunct2, THEN conjunct2, THEN conjunct2, THEN conjunct1, THEN mp, OF p4'] s4
  have f: "fst (readSignal ?sg world_react) = Throw (Str ''SuspenseException'')"
    by simp
  from t2 [THEN conjunct2, THEN conjunct2, THEN conjunct2, THEN conjunct2, THEN conjunct2, THEN conjunct2, THEN conjunct1, THEN mp, OF p4]
  have g: "fst (readSignal ?sg
             (settle 9 (Inr (Str ''ready'')) (snd (readSignal ?sg world_react)))) = Return (Str ''ready'')"
    by simp
  from h0 a p3 u3 b c d e u4 f g show ?thesis
    by simp
qed

subsection \<open>Substitution: frame, sharing, shape\<close>

lemma same_but_nextAddr_refl [simp]: "same_but_nextAddr w w"
  by (simp add: same_but_nextAddr_def)

lemma same_but_nextAddr_trans:
  "same_but_nextAddr w w1 \<Longrightarrow> same_but_nextAddr w1 w2 \<Longrightarrow> same_but_nextAddr w w2"
  unfolding same_but_nextAddr_def
  by (metis (no_types, lifting) le_trans world.surjective world.update_convs(1))

lemma same_but_nextAddr_alloc: "same_but_nextAddr w (snd (alloc w))"
  by (simp add: same_but_nextAddr_def alloc_def)

lemma use_Return: "use promise w = (Return v, w') \<Longrightarrow> w' = w"
  by (auto simp: use_eq Let_def split: option.splits pstatus.splits)

lemma readSignal_Return: "readSignal sg w = (Return v, w') \<Longrightarrow> w' = w"
  by (auto simp: readSignal_def Let_def dest: use_Return split: if_splits)

lemma fill_frame:
  "fillAllSignalValues x w = (Return r, w') \<Longrightarrow> same_but_nextAddr w w'"
  "fill_items xs w = (Return ri, w') \<Longrightarrow> same_but_nextAddr w w'"
  "fill_entries es w = (Return re, w') \<Longrightarrow> same_but_nextAddr w w'"
proof (induction x w and xs w and es w arbitrary: r w' and ri w' and re w'
    rule: fillAllSignalValues_fill_items_fill_entries.induct)
  case (1 x w)
  then show ?case by (auto dest: readSignal_Return)
next
  case (2 a xs w)
  then show ?case
    by (auto simp: alloc_def split: prod.splits res.splits
        intro: same_but_nextAddr_trans same_but_nextAddr_alloc [unfolded alloc_def, simplified])
next
  case (3 a es syms hid p w)
  then show ?case
    by (auto simp: alloc_def split: prod.splits res.splits
        intro: same_but_nextAddr_trans same_but_nextAddr_alloc [unfolded alloc_def, simplified])
next
  case (12 item rest w)
  then show ?case
    by (auto split: prod.splits res.splits intro: same_but_nextAddr_trans)
next
  case (14 kv rest w)
  then show ?case
    by (auto split: prod.splits res.splits intro: same_but_nextAddr_trans)
qed auto

lemma clean_Arr: "clean (Arr a xs) \<longleftrightarrow> (\<forall>x\<in>set xs. clean x)"
  by (auto simp: clean_def handle_free_def nan_free_def list_all_iff)

lemma clean_Obj: "clean (Obj a es syms hid p) \<longleftrightarrow> (\<forall>kv\<in>set es. clean (snd kv))"
  by (auto simp: clean_def handle_free_def nan_free_def list_all_iff)

lemma clean_simps [simp]: "\<not> clean (Signal sg)" "\<not> clean NaN"
  by (simp_all add: clean_def handle_free_def nan_free_def)

lemma strict_eq_refl: "x \<noteq> NaN \<Longrightarrow> strict_eq x x"
  by (cases x) simp_all

lemma clean_not_NaN: "clean x \<Longrightarrow> x \<noteq> NaN"
  by auto

lemma fill_clean:
  "clean x \<Longrightarrow> fst (fillAllSignalValues x w) = Return x"
  "\<forall>x\<in>set xs. clean x \<Longrightarrow> fst (fill_items xs w) = Return (xs, False)"
  "\<forall>kv\<in>set es. clean (snd kv) \<Longrightarrow> fst (fill_entries es w) = Return (es, False)"
proof (induction x w and xs w and es w
    rule: fillAllSignalValues_fill_items_fill_entries.induct)
  case (2 a xs w)
  then show ?case
    by (auto simp: clean_Arr alloc_def split: prod.splits res.splits)
next
  case (3 a es syms hid p w)
  then show ?case
    by (auto simp: clean_Obj alloc_def split: prod.splits res.splits)
next
  case (12 item rest w)
  obtain r1 w1 where f: "fillAllSignalValues item w = (r1, w1)" by (cases "fillAllSignalValues item w")
  from 12 have c: "clean item" "\<forall>x\<in>set rest. clean x" by simp_all
  from 12(1) c(1) f have r1: "r1 = Return item" by simp
  from 12(2) [OF f [symmetric] r1] c(2) have "fst (fill_items rest w1) = Return (rest, False)" .
  then show ?case
    using f r1 c(1) by (auto simp: strict_eq_refl clean_not_NaN split: prod.splits res.splits)
next
  case (14 kv rest w)
  obtain r1 w1 where f: "fillAllSignalValues (snd kv) w = (r1, w1)"
    by (cases "fillAllSignalValues (snd kv) w")
  from 14 have c: "clean (snd kv)" "\<forall>x\<in>set rest. clean (snd x)" by simp_all
  from 14(1) c(1) f have r1: "r1 = Return (snd kv)" by simp
  from 14(2) [OF f [symmetric] r1] c(2) have "fst (fill_entries rest w1) = Return (rest, False)" .
  then show ?case
    using f r1 c(1) by (auto simp: strict_eq_refl clean_not_NaN split: prod.splits res.splits)
qed simp_all


lemma fill_entries_keys:
  "fill_entries es w = (Return (es2, ch), w') \<Longrightarrow> map fst es2 = map fst es"
  by (induction es arbitrary: w es2 ch w') (auto split: prod.splits res.splits)




lemma readSignal_nextAddr:
  "readSignal sg w = (Return v, w) \<Longrightarrow> readSignal sg (w\<lparr>nextAddr := n\<rparr>) = (Return v, w\<lparr>nextAddr := n\<rparr>)"
  by (auto simp: readSignal_def read_def use_eq suspension_def Let_def
      split: option.splits pstatus.splits if_splits)

lemma readSignal_same:
  "same_but_nextAddr w w1 \<Longrightarrow> readSignal sg w = (Return v, w) \<Longrightarrow> readSignal sg w1 = (Return v, w1)"
  by (metis readSignal_nextAddr same_but_nextAddr_def)

subsection \<open>Substitution along a path\<close>



subsection \<open>Children are substituted one level deep, properties at any depth\<close>







lemma world0_read: "readSignal sg world0 = (Return (Num 0), world0)"
  by (simp add: readSignal_def read_def world0_def Let_def)


subsection \<open>The handle list of the element factory\<close>

lemma signalsInChildren_the_signals: "signalsInChildren children = the_signals children"
  by (induction children rule: the_signals.induct) (simp_all add: signalsInChildren_def)

text \<open>
  Claim C4 as stated fails: for the one child \<open>[signal]\<close>, an array that holds a signal,
  the scanner \<open>findAllSignals\<close> finds the signal, \<open>createElement\<close> finds none in the
  children and creates the original element, with no boundary.
\<close>

theorem createElement_children_scanned_deep_counterexample:
  "signalsInChildren [Arr 1 [Signal (Sig 2 0 0)]] = []
   \<and> concat (map findAllSignals [Arr 1 [Signal (Sig 2 0 0)]]) = [Sig 2 0 0]
   \<and> createElement 0 Null [Arr 1 [Signal (Sig 2 0 0)]] world0
       = (Direct (Element 0 Null [Arr 1 [Signal (Sig 2 0 0)]]), world0)"
  by (simp add: signalsInChildren_def createElement_def createElementOrig_def)

text \<open>
  Claim C4, as amended. The signals that \<open>createElement\<close> detects in the children are the
  children that are themselves signals, in order (a signal inside a child is not
  looked for); the properties are scanned by \<open>findAllSignals\<close>. With no signal found the
  original element is created; otherwise a \<open>Rerenderer\<close> element is created whose list
  \<open>signals\<close> is a new array, the signals of the children first, then those of the
  properties.
\<close>

theorem createElement_handle_list:
  "createElement type props children w =
     (if the_signals children = [] \<and> findAllSignals props = []
      then (Direct (Element type props children), w)
      else (Boundary (nextAddr w, the_signals children @ findAllSignals props)
              (render_closure type props children),
            w\<lparr>nextAddr := Suc (nextAddr w)\<rparr>))"
  by (simp add: createElement_def signalsInChildren_the_signals createElementOrig_def alloc_def)

subsection \<open>Structural sharing and NaN\<close>

text \<open>
  Claim C6 at its failing inputs. The array \<open>[NaN]\<close> holds no signal, and
  \<open>fillAllSignalValues\<close> returns a new array for it, not the input: \<open>NaN !== NaN\<close> sets
  \<open>changed\<close>. In \<open>{ style: { width: NaN }, title: signal }\<close> the sibling \<open>style\<close> of the one
  signal comes back as a new object.
\<close>

theorem fillAllSignalValues_copies_NaN:
  "handle_free (Arr 1 [NaN])
   \<and> fst (fillAllSignalValues (Arr 1 [NaN]) world0) = Return (Arr 100 [NaN])
   \<and> \<not> strict_eq (Arr 1 [NaN]) (Arr 100 [NaN])
   \<and> fst (fillAllSignalValues styled_props world0)
       = Return (Obj 101 [(''style'', Obj 100 [(''width'', NaN)] [] [] ObjectPrototype),
                          (''title'', Num 0)] [] [] ObjectPrototype)
   \<and> \<not> strict_eq (Obj 2 [(''width'', NaN)] [] [] ObjectPrototype)
                   (Obj 100 [(''width'', NaN)] [] [] ObjectPrototype)"
  by (simp add: handle_free_def styled_props_def alloc_def readSignal_immediate read_def world0_def)

text \<open>
  Without \<open>NaN\<close> the sharing holds. A structure with no signal and no \<open>NaN\<close> in it is
  returned as it is, the same object. An object of which one field is a signal, the
  other fields holding neither signal nor \<open>NaN\<close>, comes back as a new object in which
  that field holds the value read and every other field holds the very value it held.
\<close>

lemma fill_entries_one:
  assumes "i < length es" "snd (es ! i) = Signal sg"
    "\<forall>j<length es. j \<noteq> i \<longrightarrow> clean (snd (es ! j))"
    "readSignal sg w = (Return v, w)" "\<not> isSignal v"
  shows "\<exists>w'. fill_entries es w = (Return (es[i := (fst (es ! i), v)], True), w') \<and> same_but_nextAddr w w'"
  using assms
proof (induction es arbitrary: i w)
  case Nil
  then show ?case by simp
next
  case (Cons kv rest)
  show ?case
  proof (cases i)
    case 0
    with Cons.prems have kv: "snd kv = Signal sg" by simp
    have cl: "\<forall>x\<in>set rest. clean (snd x)"
    proof
      fix x assume "x \<in> set rest"
      then obtain k where k: "k < length rest" "rest ! k = x" by (auto simp: in_set_conv_nth)
      with Cons.prems(3) 0 have "clean (snd ((kv # rest) ! Suc k))" by auto
      with k show "clean (snd x)" by simp
    qed
    obtain r2 w2 where f2: "fill_entries rest w = (r2, w2)" by (cases "fill_entries rest w")
    with fill_clean(3) [OF cl, of w] have r2: "r2 = Return (rest, False)" by simp
    have fr: "same_but_nextAddr w w2" using f2 [unfolded r2] by (rule fill_frame(3))
    have ne: "\<not> strict_eq (Signal sg) v" using Cons.prems(5) by (cases v) simp_all
    have "fill_entries (kv # rest) w = (Return ((fst kv, v) # rest, True), w2)"
      using kv Cons.prems(4) f2 r2 ne by simp
    with fr 0 show ?thesis by simp
  next
    case (Suc j)
    with Cons.prems have j: "j < length rest" "snd (rest ! j) = Signal sg"
      by auto
    from Cons.prems(3) Suc have clkv: "clean (snd kv)"
      by (auto dest: spec [of _ 0])
    have clr: "\<forall>k<length rest. k \<noteq> j \<longrightarrow> clean (snd (rest ! k))"
    proof (intro allI impI)
      fix k assume "k < length rest" "k \<noteq> j"
      with Cons.prems(3) Suc have "clean (snd ((kv # rest) ! Suc k))" by auto
      then show "clean (snd (rest ! k))" by simp
    qed
    obtain r1 w1 where f1: "fillAllSignalValues (snd kv) w = (r1, w1)"
      by (cases "fillAllSignalValues (snd kv) w")
    with fill_clean(1) [OF clkv, of w] have r1: "r1 = Return (snd kv)" by simp
    have fr1: "same_but_nextAddr w w1" using f1 [unfolded r1] by (rule fill_frame(1))
    have rd: "readSignal sg w1 = (Return v, w1)" using fr1 Cons.prems(4) by (rule readSignal_same)
    from Cons.IH [OF j clr rd Cons.prems(5)] obtain w2 where
      f2: "fill_entries rest w1 = (Return (rest[j := (fst (rest ! j), v)], True), w2)"
      and fr2: "same_but_nextAddr w1 w2" by blast
    have "fill_entries (kv # rest) w
        = (Return ((fst kv, snd kv) # rest[j := (fst (rest ! j), v)], True), w2)"
      using f1 r1 f2 by simp
    with same_but_nextAddr_trans [OF fr1 fr2] Suc show ?thesis by simp
  qed
qed

lemma fillAllSignalValues_shares_without_NaN:
  "clean x \<Longrightarrow> fst (fillAllSignalValues x w) = Return x"
  by (rule fill_clean(1))

lemma fillAllSignalValues_shares_without_NaN_example:
  "clean (Obj 11 [(''b'', Arr 12 [Num 4, Null])] [] [] ObjectPrototype)
   \<and> fst (fillAllSignalValues (Obj 11 [(''b'', Arr 12 [Num 4, Null])] [] [] ObjectPrototype) world0)
       = Return (Obj 11 [(''b'', Arr 12 [Num 4, Null])] [] [] ObjectPrototype)"
proof -
  have c: "clean (Obj 11 [(''b'', Arr 12 [Num 4, Null])] [] [] ObjectPrototype)"
    by (simp add: clean_def handle_free_def nan_free_def)
  from fillAllSignalValues_shares_without_NaN [OF c, of world0] c show ?thesis by simp
qed

lemma fillAllSignalValues_one_field:
  assumes "i < length es" "snd (es ! i) = Signal sg"
    "\<forall>j<length es. j \<noteq> i \<longrightarrow> clean (snd (es ! j))"
    "readSignal sg w = (Return v, w)" "\<not> isSignal v"
  shows "\<exists>a2. fst (fillAllSignalValues (Obj a es syms hid p) w)
             = Return (Obj a2 (es[i := (fst (es ! i), v)]) [] [] ObjectPrototype)
           \<and> nextAddr w \<le> a2"
proof -
  from fill_entries_one [OF assms] obtain w1 where
    f: "fill_entries es w = (Return (es[i := (fst (es ! i), v)], True), w1)"
    and fr: "same_but_nextAddr w w1" by blast
  then show ?thesis by (auto simp: alloc_def same_but_nextAddr_def)
qed

lemma fillAllSignalValues_one_field_example:
  "fst (fillAllSignalValues two_fields world0)
     = Return (Obj 101 [(''label'', Num 0), (''style'', Obj 2 [(''width'', Num 5)] [] [] ObjectPrototype)]
                 [] [] ObjectPrototype)
   \<and> clean (Obj 2 [(''width'', Num 5)] [] [] ObjectPrototype)
   \<and> readSignal (Sig 3 0 0) world0 = (Return (Num 0), world0)"
proof -
  let ?es = "[(''label'', Signal (Sig 3 0 0)), (''style'', Obj 2 [(''width'', Num 5)] [] [] ObjectPrototype)]"
  have c: "clean (Obj 2 [(''width'', Num 5)] [] [] ObjectPrototype)"
    by (simp add: clean_def handle_free_def nan_free_def)
  have h3: "\<forall>j<length ?es. j \<noteq> 0 \<longrightarrow> clean (snd (?es ! j))"
  proof (intro allI impI)
    fix j assume "j < length ?es" "j \<noteq> 0"
    then have "j = 1" by simp
    with c show "clean (snd (?es ! j))" by simp
  qed
  have e: "fst (fillAllSignalValues two_fields world0)
     = Return (Obj 101 [(''label'', Num 0), (''style'', Obj 2 [(''width'', Num 5)] [] [] ObjectPrototype)]
                 [] [] ObjectPrototype)"
    by (simp add: two_fields_def alloc_def readSignal_immediate read_def world0_def)
  from fillAllSignalValues_one_field [of 0 ?es "Sig 3 0 0" world0 "Num 0" 1 "[]" "[]" ObjectPrototype,
      OF _ _ h3 world0_read] e c world0_read
  show ?thesis by simp
qed

subsection \<open>A rebuilt object is a plain object\<close>

text \<open>
  Claim C10. When \<open>fillAllSignalValues\<close> returns for an object something other than
  the object itself, the result is a new plain object: its own enumerable string keys are
  those of the input, in order; it has no symbol-keyed and no non-enumerable property;
  its prototype is \<open>Object.prototype\<close>, whatever the prototype of the input was.
\<close>

theorem fill_rebuilt_object_is_plain:
  assumes "fillAllSignalValues (Obj a es syms hid p) w = (Return r, w')"
    and "r \<noteq> Obj a es syms hid p"
  shows "\<exists>a2 es2. r = Obj a2 es2 [] [] ObjectPrototype \<and> map fst es2 = map fst es \<and> nextAddr w \<le> a2"
proof -
  from assms obtain es2 w1 where fe: "fill_entries es w = (Return (es2, True), w1)"
    and r: "r = Obj (nextAddr w1) es2 [] [] ObjectPrototype"
    by (auto simp: alloc_def split: prod.splits res.splits if_splits)
  have "map fst es2 = map fst es" using fe by (rule fill_entries_keys)
  moreover have "nextAddr w \<le> nextAddr w1"
    using fill_frame(3) [OF fe] by (simp add: same_but_nextAddr_def)
  ultimately show ?thesis using r by blast
qed

theorem fill_rebuilt_object_is_plain_witness:
  "fillAllSignalValues widget_instance world0
     = (Return (Obj 100 [(''a'', Num 0), (''b'', Str ''x'')] [] [] ObjectPrototype),
        world0\<lparr>nextAddr := 101\<rparr>)
   \<and> Obj 100 [(''a'', Num 0), (''b'', Str ''x'')] [] [] ObjectPrototype \<noteq> widget_instance
   \<and> (\<exists>a2 es2. Obj 100 [(''a'', Num 0), (''b'', Str ''x'')] [] [] ObjectPrototype
          = Obj a2 es2 [] [] ObjectPrototype
        \<and> map fst es2 = [''a'', ''b''] \<and> nextAddr world0 \<le> a2)"
proof -
  have f: "fillAllSignalValues widget_instance world0
     = (Return (Obj 100 [(''a'', Num 0), (''b'', Str ''x'')] [] [] ObjectPrototype),
        world0\<lparr>nextAddr := 101\<rparr>)"
    by (simp add: widget_instance_def alloc_def readSignal_immediate read_def world0_def)
  have n: "Obj 100 [(''a'', Num 0), (''b'', Str ''x'')] [] [] ObjectPrototype \<noteq> widget_instance"
    by (simp add: widget_instance_def)
  from fill_rebuilt_object_is_plain [OF f [unfolded widget_instance_def] n [unfolded widget_instance_def]] f n
  show ?thesis by simp
qed

text \<open>
  A \<open>Promise\<close> instance is rebuilt like any other object: the promise fulfilled with a
  signal comes back as a plain object whose field \<open>value\<close> holds the value read.
\<close>

lemma fill_promise_example:
  "fillAllSignalValues (promise_val world_fulfilled 9) world_fulfilled
     = (Return (Obj 100 [(''status'', Str ''fulfilled''), (''value'', Num 0)] [] [] ObjectPrototype),
        world_fulfilled\<lparr>nextAddr := 101\<rparr>)"
  by (simp add: promise_val_def promise_entries_def alloc_def readSignal_immediate read_def
      world_fulfilled_def world0_def)

subsection \<open>The subscriptions of the render boundary follow the committed list\<close>

lemma subscribe_all_result:
  "subscribe_all sigs rerender w =
     (map lid (new_listeners (nextSub w) sigs rerender),
      w\<lparr>listeners := listeners w @ new_listeners (nextSub w) sigs rerender,
        nextSub := nextSub w + length sigs\<rparr>)"
  by (induction sigs arbitrary: w) (simp_all add: subscribeSignal_def store_sub_def)

lemma unsub_all_result:
  "unsub_all us w = w\<lparr>listeners := filter (\<lambda>l. lid l \<notin> set us) (listeners w)\<rparr>"
  by (induction us arbitrary: w) (simp_all add: unsub_def)

lemma new_listeners_callback: "l \<in> set (new_listeners n sigs rerender) \<Longrightarrow> lcallback l = rerender"
  by (induction sigs arbitrary: n) auto

lemma new_listeners_lid:
  "l \<in> set (new_listeners n sigs rerender) \<Longrightarrow> n \<le> lid l \<and> lid l < n + length sigs"
  by (induction sigs arbitrary: n) fastforce+

lemma new_listeners_distinct: "distinct (map lid (new_listeners n sigs rerender))"
  by (induction sigs arbitrary: n) (auto dest: new_listeners_lid)

lemma new_listeners_cells:
  "map (\<lambda>l. (lstore l, latom l)) (new_listeners n sigs rerender) = map cell_of sigs"
  by (induction sigs arbitrary: n) (simp_all add: cell_of_def)

lemma listChanged_same [simp]: "\<not> listChanged compareFn_default xs xs"
  by (simp add: listChanged_def compareFn_default_def list_ex_iff)

lemma commit_effect_inv:
  assumes own: "map lid (own rerender w) = unsubs h"
    and dist: "distinct (map lid (listeners w))"
    and bound: "list_all (\<lambda>l. lid l < nextSub w) (listeners w)"
    and same: "effectDeps h = Some (fst m) \<Longrightarrow> subscriptions rerender w = map cell_of (snd m)"
    and memo: "memoState h = Some m"
    and c: "commit_effect rerender m h w = (h', w')"
  shows "boundary_inv rerender h' w' \<and> memoState h' = Some m
         \<and> filter (\<lambda>l. lcallback l \<noteq> rerender) (listeners w')
             = filter (\<lambda>l. lcallback l \<noteq> rerender) (listeners w)
         \<and> (effectDeps h \<noteq> Some (fst m) \<longrightarrow> set (unsubs h) \<inter> lid ` set (listeners w') = {})"
proof (cases "effectDeps h = Some (fst m)")
  case True
  with c have "h' = h" "w' = w" by (simp_all add: commit_effect_def)
  with own dist bound same [OF True] memo True show ?thesis
    by (simp add: boundary_inv_def)
next
  case False
  let ?kept = "filter (\<lambda>l. lid l \<notin> set (unsubs h)) (listeners w)"
  let ?new = "new_listeners (nextSub w) (snd m) rerender"
  from c False have h': "h' = h\<lparr>effectDeps := Some (fst m), unsubs := map lid ?new\<rparr>"
    and w': "w' = w\<lparr>listeners := ?kept @ ?new, nextSub := nextSub w + length (snd m)\<rparr>"
    by (simp_all add: commit_effect_def unsub_all_result subscribe_all_result Let_def)
  have su: "set (unsubs h) = lid ` {l \<in> set (listeners w). lcallback l = rerender}"
    unfolding own [symmetric] by (simp add: own_def)
  have kept_others: "?kept = filter (\<lambda>l. lcallback l \<noteq> rerender) (listeners w)"
  proof (rule filter_cong [OF refl])
    fix l assume l: "l \<in> set (listeners w)"
    show "(lid l \<notin> set (unsubs h)) = (lcallback l \<noteq> rerender)"
    proof
      assume "lid l \<notin> set (unsubs h)"
      then show "lcallback l \<noteq> rerender"
        using su l by blast
    next
      assume nc: "lcallback l \<noteq> rerender"
      show "lid l \<notin> set (unsubs h)"
      proof
        assume "lid l \<in> set (unsubs h)"
        then obtain l' where l': "l' \<in> set (listeners w)" "lcallback l' = rerender" "lid l' = lid l"
          using su by auto
        with dist l have "l' = l" by (meson distinct_map inj_onD)
        with l' nc show False by simp
      qed
    qed
  qed
  have own_kept: "filter (\<lambda>l. lcallback l = rerender) ?kept = []"
    unfolding kept_others by simp
  have own_new: "filter (\<lambda>l. lcallback l = rerender) ?new = ?new"
    by (simp add: new_listeners_callback)
  have own': "own rerender w' = ?new"
    using own_kept by (simp add: own_def w' own_new)
  have bound_kept: "\<forall>l\<in>set ?kept. lid l < nextSub w"
    using bound by (auto simp: list_all_iff)
  have dist': "distinct (map lid (?kept @ ?new))"
    using dist bound_kept by (auto simp: distinct_map_filter new_listeners_distinct dest!: new_listeners_lid)
  have bound': "list_all (\<lambda>l. lid l < nextSub w + length (snd m)) (?kept @ ?new)"
    using bound_kept by (auto simp: list_all_iff dest!: new_listeners_lid)
  have others: "filter (\<lambda>l. lcallback l \<noteq> rerender) (?kept @ ?new)
      = filter (\<lambda>l. lcallback l \<noteq> rerender) (listeners w)"
    unfolding kept_others by (simp add: new_listeners_callback)
  have gone: "set (unsubs h) \<inter> lid ` set (?kept @ ?new) = {}"
  proof -
    have "\<And>l. l \<in> set ?new \<Longrightarrow> lid l \<notin> set (unsubs h)"
    proof
      fix l assume l: "l \<in> set ?new" and "lid l \<in> set (unsubs h)"
      then obtain l' where "l' \<in> set (listeners w)" "lid l' = lid l"
        using su by auto
      with bound have "lid l < nextSub w" by (auto simp: list_all_iff)
      with new_listeners_lid [OF l] show False by simp
    qed
    then show ?thesis by auto
  qed
  show ?thesis
    using memo False dist' bound' others gone
    by (simp add: boundary_inv_def h' own' subscriptions_def new_listeners_cells)
      (simp add: w')
qed

lemma Rerenderer_eq:
  "Rerenderer signals render h w =
     (fst (render w), h\<lparr>memoState := Some (memo_after signals h)\<rparr>, memo_after signals h,
      memo_changed signals h, snd (render w))"
  by (cases "memoState h")
    (simp_all add: Rerenderer_def useMemoList_def memo_after_def memo_changed_def split_beta)

lemma memo_after_again:
  "memo_after signals (h\<lparr>memoState := Some signals\<rparr>) = signals"
  "\<not> memo_changed signals (h\<lparr>memoState := Some signals\<rparr>)"
  by (simp_all add: memo_after_def memo_changed_def)

lemma render_pass_committed:
  assumes keeps: "keeps_listeners render"
    and pass: "render_pass fuel rerender signals render h w = (Committed out, h', w', n)"
  shows "\<exists>w1. listeners w1 = listeners w \<and> nextSub w1 = nextSub w
           \<and> commit_effect rerender (memo_after signals h) (h\<lparr>memoState := Some (memo_after signals h)\<rparr>) w1
               = (h', w')
           \<and> n = (if memo_changed signals h then 2 else 1)"
proof (cases fuel)
  case 0
  with pass show ?thesis by simp
next
  case (Suc f)
  obtain r w1 where rw: "render w = (r, w1)" by (cases "render w")
  have k1: "listeners w1 = listeners w" "nextSub w1 = nextSub w"
    using keeps rw by (auto simp: keeps_listeners_def dest: spec [of _ w])
  from pass Suc rw obtain out1 where r: "r = Return out1"
    by (cases r) (simp_all add: Rerenderer_eq)
  show ?thesis
  proof (cases "memo_changed signals h")
    case False
    with pass Suc rw r k1 show ?thesis
      by (auto simp: Rerenderer_eq split: prod.splits)
  next
    case True
    then have ma: "memo_after signals h = signals"
      by (auto simp: memo_after_def memo_changed_def split: option.splits)
    let ?h1 = "h\<lparr>memoState := Some signals\<rparr>"
    from pass Suc rw r True ma obtain n1 where
      p2: "render_pass f rerender signals render ?h1 w1 = (Committed out, h', w', n1)" and n: "n = Suc n1"
      by (auto simp: Rerenderer_eq split: prod.splits pass.splits)
    show ?thesis
    proof (cases f)
      case 0
      with p2 show ?thesis by simp
    next
      case (Suc f2)
      obtain r2 w2 where rw2: "render w1 = (r2, w2)" by (cases "render w1")
      have k2: "listeners w2 = listeners w1" "nextSub w2 = nextSub w1"
        using keeps rw2 by (auto simp: keeps_listeners_def dest: spec [of _ w1])
      from p2 Suc rw2 obtain out2 where r2: "r2 = Return out2"
        by (cases r2) (simp_all add: Rerenderer_eq)
      from p2 Suc rw2 r2 have
        "commit_effect rerender signals ?h1 w2 = (h', w')" "n1 = 1"
        by (auto simp: Rerenderer_eq memo_after_again split: prod.splits)
      with k1 k2 n True ma show ?thesis by auto
    qed
  qed
qed

lemma render_pass_once:
  assumes "\<not> memo_changed signals h"
  shows "snd (snd (snd (render_pass (Suc f) rerender signals render h w))) = 1"
  using assms by (cases "render w"; cases "fst (render w)")
    (auto simp: Rerenderer_eq split: prod.splits)

lemma count_fire:
  "count_list (fire s a w) rerender = count_list (subscriptions rerender w) (s, a)"
proof -
  have "count_list (map lcallback (filter (\<lambda>l. lstore l = s \<and> latom l = a) ls)) rerender
      = count_list (map (\<lambda>l. (lstore l, latom l)) (filter (\<lambda>l. lcallback l = rerender) ls)) (s, a)" for ls
    by (induction ls) auto
  then show ?thesis by (simp add: fire_def subscriptions_def own_def)
qed

lemma on_fire_runs:
  assumes "\<not> memo_changed signals h"
  shows "snd (snd (on_fire (Suc f) rerender fired signals render h w))
           = (if cell_of fired \<in> set (subscriptions rerender w) then 1 else 0)"
proof -
  let ?d = "count_list (fire (sstore fired) (satom fired) w) rerender"
  have d: "?d = count_list (subscriptions rerender w) (cell_of fired)"
    by (simp add: count_fire cell_of_def)
  have nc: "\<not> memo_changed signals (h\<lparr>counter := counter h + ?d\<rparr>)"
    using assms by (simp add: memo_changed_def)
  show ?thesis
  proof (cases "cell_of fired \<in> set (subscriptions rerender w)")
    case True
    then have "?d \<noteq> 0" by (simp add: d count_list_0_iff)
    with True render_pass_once [OF nc, of f rerender render w] show ?thesis
      by (simp add: on_fire_def Let_def split_beta del: render_pass.simps)
  next
    case False
    then have "?d = 0" by (simp add: d count_list_0_iff)
    with False show ?thesis by (simp add: on_fire_def Let_def)
  qed
qed

text \<open>
  Claim C2. Let a pass over an instance of \<open>Rerenderer\<close> commit, with the list
  \<open>signals\<close>. Then the instance holds a committed (memoized) list that is element-wise the
  list \<open>signals\<close>, and it is subscribed to exactly the cells of that list, once per
  entry; subscriptions of others are untouched; when the effect ran again, every
  subscription the instance held before is gone. From then on, a firing of a signal makes
  the body run exactly once more if the signal is in the committed list, and not at all
  otherwise; so after a pass with \<open>[h1]\<close> a firing of \<open>h1\<close> gives one more pass, and after
  a pass with \<open>[]\<close> it gives none.
\<close>

theorem Rerenderer_subscriptions_follow_list:
  assumes inv: "boundary_inv rerender h w"
    and arr: "array_unchanged signals h"
    and keeps: "keeps_listeners render"
    and pass: "render_pass fuel rerender signals render h w = (Committed out, h', w', n)"
  shows "\<exists>m. memoState h' = Some m
      \<and> list_all2 compareFn_default (snd signals) (snd m)
      \<and> subscriptions rerender w' = map cell_of (snd m)
      \<and> boundary_inv rerender h' w'
      \<and> filter (\<lambda>l. lcallback l \<noteq> rerender) (listeners w')
          = filter (\<lambda>l. lcallback l \<noteq> rerender) (listeners w)
      \<and> (effectDeps h' \<noteq> effectDeps h \<longrightarrow> set (unsubs h) \<inter> lid ` set (listeners w') = {})
      \<and> (\<forall>fired f. snd (snd (on_fire (Suc f) rerender fired signals render h' w'))
             = (if cell_of fired \<in> set (map cell_of (snd m)) then 1 else 0))"
proof -
  let ?m = "memo_after signals h"
  let ?h1 = "h\<lparr>memoState := Some ?m\<rparr>"
  from render_pass_committed [OF keeps pass] obtain w1 where
    k: "listeners w1 = listeners w" "nextSub w1 = nextSub w"
    and c: "commit_effect rerender ?m ?h1 w1 = (h', w')"
    by blast
  have o: "own rerender w1 = own rerender w" "subscriptions rerender w1 = subscriptions rerender w"
    by (simp_all add: own_def subscriptions_def k)
  from inv have i1: "map lid (own rerender w1) = unsubs ?h1"
    and i2: "distinct (map lid (listeners w1))"
    and i3: "list_all (\<lambda>l. lid l < nextSub w1) (listeners w1)"
    by (simp_all add: boundary_inv_def o k)
  have i4: "subscriptions rerender w1 = map cell_of (snd ?m)" if d: "effectDeps ?h1 = Some (fst ?m)"
  proof (cases "memoState h")
    case None
    with inv d show ?thesis by (simp add: boundary_inv_def)
  next
    case (Some m0)
    show ?thesis
    proof (cases "listChanged compareFn_default (snd signals) (snd m0)")
      case False
      with Some inv show ?thesis by (simp add: boundary_inv_def memo_after_def o)
    next
      case True
      with Some have "?m = signals" by (simp add: memo_after_def)
      with d inv Some have "fst m0 = fst signals" by (simp add: boundary_inv_def)
      with arr Some have "snd m0 = snd signals" by (simp add: array_unchanged_def)
      with True show ?thesis by simp
    qed
  qed
  have i5: "memoState ?h1 = Some ?m" by simp
  from commit_effect_inv [OF i1 i2 i3 i4 i5 c] have
    r: "boundary_inv rerender h' w'" "memoState h' = Some ?m"
      "filter (\<lambda>l. lcallback l \<noteq> rerender) (listeners w')
         = filter (\<lambda>l. lcallback l \<noteq> rerender) (listeners w)"
      "effectDeps h \<noteq> Some (fst ?m) \<longrightarrow> set (unsubs h) \<inter> lid ` set (listeners w') = {}"
    by (simp_all add: k)
  from r(1) r(2) have s: "subscriptions rerender w' = map cell_of (snd ?m)"
    and e: "effectDeps h' = Some (fst ?m)"
    by (simp_all add: boundary_inv_def)
  have l: "list_all2 compareFn_default (snd signals) (snd ?m)"
    using listChanged_same [of "snd signals"]
    by (auto simp: memo_after_def listChanged_iff split: option.splits)
  then have nc: "\<not> memo_changed signals h'"
    by (simp add: memo_changed_def r(2) listChanged_iff)
  have f: "\<forall>fired f. snd (snd (on_fire (Suc f) rerender fired signals render h' w'))
             = (if cell_of fired \<in> set (map cell_of (snd ?m)) then 1 else 0)"
  proof (intro allI)
    fix fired f
    show "snd (snd (on_fire (Suc f) rerender fired signals render h' w'))
             = (if cell_of fired \<in> set (map cell_of (snd ?m)) then 1 else 0)"
      using on_fire_runs [OF nc, of f rerender fired render w'] by (simp only: s)
  qed
  from r s e l f show ?thesis by auto
qed

lemma use_keeps:
  "listeners (snd (use promise w)) = listeners w \<and> nextSub (snd (use promise w)) = nextSub w"
  by (simp add: use_eq Let_def split: option.splits pstatus.splits)

lemma readSignal_keeps:
  "listeners (snd (readSignal sg w)) = listeners w \<and> nextSub (snd (readSignal sg w)) = nextSub w"
  by (simp add: readSignal_def Let_def use_keeps)

lemma fill_keeps:
  "listeners (snd (fillAllSignalValues x w)) = listeners w \<and> nextSub (snd (fillAllSignalValues x w)) = nextSub w"
  "listeners (snd (fill_items xs w)) = listeners w \<and> nextSub (snd (fill_items xs w)) = nextSub w"
  "listeners (snd (fill_entries es w)) = listeners w \<and> nextSub (snd (fill_entries es w)) = nextSub w"
proof (induction x w and xs w and es w rule: fillAllSignalValues_fill_items_fill_entries.induct)
  case (1 x w)
  then show ?case by (simp add: readSignal_keeps)
next
  case (2 a xs w)
  then show ?case by (auto simp: alloc_def split: prod.splits res.splits)
next
  case (3 a es syms hid p w)
  then show ?case by (auto simp: alloc_def split: prod.splits res.splits)
next
  case (12 item rest w)
  then show ?case by (auto split: prod.splits res.splits)
next
  case (14 kv rest w)
  then show ?case by (auto split: prod.splits res.splits)
qed simp_all

lemma read_children_keeps:
  "listeners (snd (read_children cs w)) = listeners w \<and> nextSub (snd (read_children cs w)) = nextSub w"
proof (induction cs arbitrary: w)
  case Nil
  then show ?case by simp
next
  case (Cons c cs)
  obtain r1 w1 where f1: "(case c of Signal x \<Rightarrow> readSignal x w | _ \<Rightarrow> (Return c, w)) = (r1, w1)"
    by (cases "case c of Signal x \<Rightarrow> readSignal x w | _ \<Rightarrow> (Return c, w)")
  have k1: "listeners w1 = listeners w \<and> nextSub w1 = nextSub w"
  proof (cases c)
    case (Signal x)
    with f1 readSignal_keeps [of x w] show ?thesis by simp
  qed (use f1 in simp_all)
  obtain r2 w2 where f2: "read_children cs w1 = (r2, w2)"
    by (cases "read_children cs w1")
  have k2: "listeners w2 = listeners w1 \<and> nextSub w2 = nextSub w1"
    using Cons.IH [of w1] f2 by simp
  show ?case
    using f1 f2 k1 k2 by (cases r1; cases r2) simp_all
qed

lemma render_closure_keeps: "keeps_listeners (render_closure type props children)"
proof -
  have p: "listeners (snd (getProps props w)) = listeners w \<and> nextSub (snd (getProps props w)) = nextSub w" for w
    by (simp add: getProps_def fill_keeps)
  have c: "listeners (snd (getChildren children w)) = listeners w \<and> nextSub (snd (getChildren children w)) = nextSub w" for w
    by (simp add: getChildren_def read_children_keeps)
  show ?thesis
    unfolding keeps_listeners_def render_closure_def
    using p c by (auto split: prod.splits res.splits) (metis snd_conv)+
qed

lemma initial_inv:
  "own rerender w = [] \<Longrightarrow> distinct (map lid (listeners w)) \<Longrightarrow>
   list_all (\<lambda>l. lid l < nextSub w) (listeners w) \<Longrightarrow> boundary_inv rerender initial_hooks w"
  by (simp add: boundary_inv_def initial_hooks_def)

lemma pass_mount:
  "render_pass (Suc (Suc 0)) 7 (50, [Sig 1 0 0]) (render_closure 0 Null [Signal (Sig 1 0 0)])
      initial_hooks world0
    = (Committed (Element 0 Null [Num 0]), hooks_mounted, world_mounted, 1)"
  by (simp add: Rerenderer_eq memo_after_def memo_changed_def initial_hooks_def
      render_closure_def getProps_def getChildren_def signalsInChildren_def
      readSignal_immediate read_def createElementOrig_def commit_effect_def
      subscribeSignal_def store_sub_def hooks_mounted_def world_mounted_def world0_def)

lemma pass_empty:
  "render_pass (Suc (Suc 0)) 7 (51, []) (render_closure 0 Null []) hooks_mounted world_mounted
    = (Committed (Element 0 Null []), hooks_emptied, world_emptied, 2)"
  by (simp add: Rerenderer_eq memo_after_def memo_changed_def listChanged_def
      render_closure_def getProps_def getChildren_def signalsInChildren_def
      createElementOrig_def commit_effect_def unsub_def
      hooks_mounted_def world_mounted_def hooks_emptied_def world_emptied_def world0_def)

lemma render_pass_commits:
  assumes "\<forall>w. \<exists>out w1. render w = (Return out, w1)"
  shows "\<exists>out h' w' n. render_pass (Suc (Suc f)) rerender signals render h w = (Committed out, h', w', n)
           \<and> n \<le> 2"
proof -
  from assms obtain out1 w1 where r1: "render w = (Return out1, w1)" by blast
  from assms obtain out2 w2 where r2: "render w1 = (Return out2, w2)" by blast
  show ?thesis
  proof (cases "memo_changed signals h")
    case False
    with r1 show ?thesis by (simp add: Rerenderer_eq split: prod.splits)
  next
    case True
    then have "memo_after signals h = signals"
      by (auto simp: memo_after_def memo_changed_def split: option.splits)
    with True r1 r2 show ?thesis
      by (simp add: Rerenderer_eq memo_after_again split: prod.splits)
  qed
qed

theorem Rerenderer_subscriptions_follow_list_witness:
  "boundary_inv 7 initial_hooks world0
   \<and> array_unchanged (50, [Sig 1 0 0]) initial_hooks
   \<and> keeps_listeners (render_closure 0 Null [Signal (Sig 1 0 0)])
   \<and> render_pass (Suc (Suc 0)) 7 (50, [Sig 1 0 0]) (render_closure 0 Null [Signal (Sig 1 0 0)])
        initial_hooks world0
       = (Committed (Element 0 Null [Num 0]), hooks_mounted, world_mounted, 1)
   \<and> subscriptions 7 world_mounted = [(0, 0)]
   \<and> snd (snd (on_fire (Suc 0) 7 (Sig 1 0 0) (50, [Sig 1 0 0])
                  (render_closure 0 Null [Signal (Sig 1 0 0)]) hooks_mounted world_mounted)) = 1
   \<and> boundary_inv 7 hooks_mounted world_mounted
   \<and> array_unchanged (51, []) hooks_mounted
   \<and> keeps_listeners (render_closure 0 Null [])
   \<and> render_pass (Suc (Suc 0)) 7 (51, []) (render_closure 0 Null []) hooks_mounted world_mounted
       = (Committed (Element 0 Null []), hooks_emptied, world_emptied, 2)
   \<and> subscriptions 7 world_emptied = []
   \<and> snd (snd (on_fire (Suc 0) 7 (Sig 1 0 0) (51, [])
                  (render_closure 0 Null []) hooks_emptied world_emptied)) = 0"
proof -
  have i0: "boundary_inv 7 initial_hooks world0"
    by (rule initial_inv) (simp_all add: own_def world0_def)
  have a0: "array_unchanged (50, [Sig 1 0 0]) initial_hooks"
    by (simp add: array_unchanged_def initial_hooks_def)
  have a1: "array_unchanged (51, []) hooks_mounted"
    by (simp add: array_unchanged_def hooks_mounted_def)
  note t1 = Rerenderer_subscriptions_follow_list [OF i0 a0 render_closure_keeps pass_mount]
  from t1 have i1: "boundary_inv 7 hooks_mounted world_mounted"
    by blast
  from t1 have s1: "subscriptions 7 world_mounted = [(0, 0)]"
    by (simp add: hooks_mounted_def cell_of_def)
  from t1 have f1: "snd (snd (on_fire (Suc 0) 7 (Sig 1 0 0) (50, [Sig 1 0 0])
                  (render_closure 0 Null [Signal (Sig 1 0 0)]) hooks_mounted world_mounted)) = 1"
    by (simp add: hooks_mounted_def cell_of_def)
  note t2 = Rerenderer_subscriptions_follow_list [OF i1 a1 render_closure_keeps pass_empty]
  from t2 have s2: "subscriptions 7 world_emptied = []"
    by (simp add: hooks_emptied_def)
  from t2 have f2: "snd (snd (on_fire (Suc 0) 7 (Sig 1 0 0) (51, [])
                  (render_closure 0 Null []) hooks_emptied world_emptied)) = 0"
    by (simp add: hooks_emptied_def)
  from i0 a0 a1 i1 s1 f1 s2 f2 pass_mount pass_empty render_closure_keeps show ?thesis
    by simp
qed

end
